theory Spec2Isabelle
  imports Main "HOL-Library.Word" "HOL-Library.Signed_Division" "HOL-Library.Multiset"
    "HOL-Library.Sublist"
begin

section \<open>The health-check registry of \<^verbatim>\<open>health/health.go\<close>\<close>

subsection \<open>Data model\<close>

text \<open>
  A Go \<^verbatim>\<open>error\<close> is an interface value: \<^verbatim>\<open>nil\<close>, or an object whose \<^verbatim>\<open>Error()\<close>
  method gives a description. The model keeps the description; \<^verbatim>\<open>nil\<close> is \<open>None\<close> of
  \<open>error option\<close>.
\<close>

datatype error = Error (description: string)

text \<open>The two run-time panics the code of this package can raise by itself.\<close>

datatype panic = NilPointerDereference | IndexOutOfRange

text \<open>
  \<^verbatim>\<open>*http.Client\<close> is a handle of the standard library; only its identity matters here.
\<close>

datatype Client = DefaultClient | CustomClient nat

text \<open>
  \<^verbatim>\<open>type httpChecker struct { url string; httpClient *http.Client }\<close>
\<close>

record httpChecker =
  url :: string
  httpClient :: Client

text \<open>
  \<^verbatim>\<open>healthIndicator\<close>: the field \<^verbatim>\<open>checker\<close> holds a value of the interface \<^verbatim>\<open>Checker\<close>.
  The type \<open>'c\<close> stands for the implementations of that interface; an interface value may
  be \<^verbatim>\<open>nil\<close>, which is \<open>None\<close>. \<^verbatim>\<open>LastChecked\<close> is a \<^verbatim>\<open>uint64\<close>.
\<close>

record 'c healthIndicator =
  Service :: string
  Healthy :: bool
  Message :: string
  ObserveOnly :: bool
  LastChecked :: "64 word"
  checker :: "'c option"

text \<open>
  \<^verbatim>\<open>Health\<close>: the embedded \<^verbatim>\<open>sync.Mutex\<close> is not a field of the model. Every method below
  that the source brackets by \<^verbatim>\<open>h.Lock()\<close> and \<^verbatim>\<open>h.Unlock()\<close> is one function on the
  state, that is, one atomic step. The field \<^verbatim>\<open>httpClient\<close> is called \<open>client\<close> here, since
  \<open>httpClient\<close> already names the field of \<open>httpChecker\<close>.
\<close>

record 'c Health =
  run :: bool
  client :: Client
  Healthy :: bool
  Checks :: "'c healthIndicator list"

subsection \<open>Construction\<close>

text \<open>
  \<^verbatim>\<open>MakeHealth\<close> sets \<^verbatim>\<open>httpClient\<close> only; every other field has Go's zero value:
  \<^verbatim>\<open>false\<close> for the two booleans and the nil slice for \<^verbatim>\<open>Checks\<close>.
\<close>

definition MakeHealth :: "'c Health" where
  "MakeHealth = \<lparr>run = False, client = DefaultClient, Healthy = False, Checks = []\<rparr>"

definition WithHTTPClient :: "'c Health \<Rightarrow> Client \<Rightarrow> 'c Health" where
  "WithHTTPClient h c = h\<lparr>client := c\<rparr>"

definition HTTPChecker :: "'c Health \<Rightarrow> string \<Rightarrow> httpChecker" where
  "HTTPChecker h u = \<lparr>url = u, httpClient = client h\<rparr>"

subsection \<open>Adding and removing checks\<close>

text \<open>
  \<^verbatim>\<open>removeChecker\<close>: \<^verbatim>\<open>s[i] = s[len(s)-1]; return s[:len(s)-1]\<close>. Go panics when an
  index is out of range, which covers the empty slice (\<^verbatim>\<open>len(s)-1\<close> is \<^verbatim>\<open>-1\<close>).
\<close>

definition removeChecker :: "'a list \<Rightarrow> nat \<Rightarrow> panic + 'a list" where
  "removeChecker s i =
     (if i < length s then Inr (butlast (s[i := last s])) else Inl IndexOutOfRange)"

text \<open>
  The loop of \<^verbatim>\<open>AddCheck\<close>:
  \<^verbatim>\<open>for _, c := range h.Checks { if c.Service == service { c.checker = checker; c.ObserveOnly = observeOnly; return } }\<close>.
  In Go the iteration variable \<^verbatim>\<open>c\<close> of a \<^verbatim>\<open>range\<close> over a slice of structs is a
  variable of its own that receives a copy of the element. The two assignments write to
  that variable, not to \<^verbatim>\<open>h.Checks\<close>. \<open>AddCheck_range\<close> returns the variable \<^verbatim>\<open>c\<close> as it
  is when the loop returns from the method (\<open>Some\<close>), or \<open>None\<close> when the loop runs to
  its end.
\<close>

fun AddCheck_range ::
  "'c healthIndicator list \<Rightarrow> string \<Rightarrow> bool \<Rightarrow> 'c option \<Rightarrow> 'c healthIndicator option"
where
  "AddCheck_range [] service observeOnly chk = None"
| "AddCheck_range (c # cs) service observeOnly chk =
     (if Service c = service
      then Some (c\<lparr>checker := chk, ObserveOnly := observeOnly\<rparr>)
      else AddCheck_range cs service observeOnly chk)"

text \<open>
  \<^verbatim>\<open>AddCheck\<close>: when the loop has returned, the local variable is dropped and the registry is
  as it was; otherwise
  \<^verbatim>\<open>h.Checks = append(h.Checks, healthIndicator{service, true, "", observeOnly, 0, checker})\<close>.
\<close>

definition AddCheck :: "'c Health \<Rightarrow> string \<Rightarrow> bool \<Rightarrow> 'c option \<Rightarrow> 'c Health" where
  "AddCheck h service observeOnly chk =
     (case AddCheck_range (Checks h) service observeOnly chk of
        Some c \<Rightarrow> h
      | None \<Rightarrow>
          h\<lparr>Checks := Checks h @
               [\<lparr>Service = service, Healthy = True, Message = [], ObserveOnly = observeOnly,
                 LastChecked = 0, checker = chk\<rparr>]\<rparr>)"

text \<open>
  The loop of \<^verbatim>\<open>RemoveCheck\<close>, \<^verbatim>\<open>for idx, c := range h.Checks\<close>: the index of the first
  element whose \<^verbatim>\<open>Service\<close> is the name, if there is one. The second argument is the index of
  the head of the list that is left.
\<close>

fun RemoveCheck_range :: "'c healthIndicator list \<Rightarrow> nat \<Rightarrow> string \<Rightarrow> nat option" where
  "RemoveCheck_range [] idx service = None"
| "RemoveCheck_range (c # cs) idx service =
     (if Service c = service then Some idx else RemoveCheck_range cs (Suc idx) service)"

definition RemoveCheck :: "'c Health \<Rightarrow> string \<Rightarrow> panic + 'c Health" where
  "RemoveCheck h service =
     (case RemoveCheck_range (Checks h) 0 service of
        None \<Rightarrow> Inr h
      | Some idx \<Rightarrow>
          (case removeChecker (Checks h) idx of
             Inl p \<Rightarrow> Inl p
           | Inr s \<Rightarrow> Inr (h\<lparr>Checks := s\<rparr>)))"

text \<open>\<^verbatim>\<open>StopCheckers\<close>: \<^verbatim>\<open>h.run = false\<close>.\<close>

definition StopCheckers :: "'c Health \<Rightarrow> 'c Health" where
  "StopCheckers h = h\<lparr>run := False\<rparr>"

subsection \<open>Running one check\<close>

text \<open>
  Lines 110 to 117 of \<^verbatim>\<open>runChecker\<close>, once \<^verbatim>\<open>Check()\<close> has returned \<open>err\<close> and the clock
  reads \<open>now\<close> (the \<^verbatim>\<open>int64\<close> of \<^verbatim>\<open>time.Now().UnixMilli()\<close>). \<^verbatim>\<open>fmt.Sprintf("%s ERROR %v", ...)\<close>
  prints the name, the text \<^verbatim>\<open> ERROR \<close> and \<^verbatim>\<open>err.Error()\<close>. The conversion \<^verbatim>\<open>uint64(...)\<close> keeps
  the 64 bits, which is \<open>word_of_int\<close>.
\<close>

definition runChecker_record :: "error option \<Rightarrow> int \<Rightarrow> 'c healthIndicator \<Rightarrow> 'c healthIndicator" where
  "runChecker_record err now c =
     (case err of
        None \<Rightarrow> c\<lparr>healthIndicator.Healthy := True, Message := ''OK''\<rparr>
      | Some e \<Rightarrow> c\<lparr>healthIndicator.Healthy := False,
                     Message := Service c @ '' ERROR '' @ description e\<rparr>)
       \<lparr>LastChecked := word_of_int now\<rparr>"

text \<open>
  \<^verbatim>\<open>runChecker\<close>: \<^verbatim>\<open>err := checker.checker.Check()\<close> is a method call on an interface value
  and panics when that value is \<^verbatim>\<open>nil\<close>. What \<^verbatim>\<open>Check()\<close> returns is decided outside
  this package: \<open>check\<close> gives it for every implementation.
\<close>

definition runChecker ::
  "('c \<Rightarrow> error option) \<Rightarrow> int \<Rightarrow> 'c healthIndicator \<Rightarrow> panic + 'c healthIndicator"
where
  "runChecker check now c =
     (case checker c of
        None \<Rightarrow> Inl NilPointerDereference
      | Some k \<Rightarrow> Inr (runChecker_record (check k) now c))"

subsection \<open>The scheduling loop\<close>

text \<open>
  The local variables of \<^verbatim>\<open>RunCheckers\<close>. \<^verbatim>\<open>count\<close> is called \<open>count_var\<close>, since \<open>count\<close>
  is the multiplicity function of multisets. \<^verbatim>\<open>nextIndex\<close> and \<^verbatim>\<open>count\<close> are Go \<^verbatim>\<open>int\<close>s
  that only hold an index into the slice or its length plus one, so they are natural
  numbers below \<open>2 ^ 63\<close>.
\<close>

record locals =
  nextIndex :: nat
  firstPass :: bool
  count_var :: nat

text \<open>Lines 122 to 128: the locals are set up and, under the lock, \<^verbatim>\<open>h.run = true\<close>.\<close>

definition RunCheckers_start :: "'c Health \<Rightarrow> 'c Health \<times> locals" where
  "RunCheckers_start h =
     (h\<lparr>run := True\<rparr>,
      \<lparr>nextIndex = 0, firstPass = True, count_var = length (Checks h) + 1\<rparr>)"

text \<open>
  \<^verbatim>\<open>time.Duration\<close> is an \<^verbatim>\<open>int64\<close> of nanoseconds. \<open>int64\<close> is the wrap-around of a
  result to 64 bits in two's complement.
\<close>

definition int64 :: "int \<Rightarrow> int" where
  "int64 x = signed_take_bit 63 x"

definition Millisecond :: int where
  "Millisecond = 1000000"

definition Second :: int where
  "Second = 1000000000"

text \<open>
  Lines 132 to 135: \<^verbatim>\<open>time.Duration(frequency) * time.Second / time.Duration(count)\<close>, or 10
  milliseconds while \<^verbatim>\<open>firstPass\<close> holds. Go's \<^verbatim>\<open>/\<close> truncates towards zero, which is
  \<open>sdiv\<close>. The divisor is at least 1.
\<close>

definition sleepDuration :: "int \<Rightarrow> locals \<Rightarrow> int" where
  "sleepDuration frequency l =
     (let d = int64 (int64 (int64 frequency * Second) sdiv int64 (int (count_var l)))
      in if firstPass l then int64 (int64 10 * Millisecond) else d)"

text \<open>
  Lines 157 to 163: \<^verbatim>\<open>h.Healthy = true\<close>, then for every check that is not observe-only
  \<^verbatim>\<open>h.Healthy = h.Healthy && c.Healthy\<close>. The first argument is \<^verbatim>\<open>h.Healthy\<close> so far.
\<close>

fun RunCheckers_range :: "bool \<Rightarrow> 'c healthIndicator list \<Rightarrow> bool" where
  "RunCheckers_range acc [] = acc"
| "RunCheckers_range acc (c # cs) =
     (if ObserveOnly c then RunCheckers_range acc cs
      else RunCheckers_range (acc \<and> healthIndicator.Healthy c) cs)"

text \<open>
  One pass through the body of the loop has up to three parts, separated by the places
  where the lock is released. The first part, lines 139 to 150, runs under the lock taken
  after the sleep. It ends by returning from \<^verbatim>\<open>RunCheckers\<close> (\<open>Returned\<close>), by releasing the
  lock before a check is run (\<open>Unlocked\<close>), or, when there are no checks, with the lock still
  held (\<open>Locked\<close>).
\<close>

datatype 'c section_end =
    Returned "'c Health"
  | Unlocked "'c Health" locals
  | Locked "'c Health" locals

definition RunCheckers_lock1 :: "'c Health \<Rightarrow> locals \<Rightarrow> 'c section_end" where
  "RunCheckers_lock1 h l =
     (let l1 = l\<lparr>count_var := length (Checks h) + 1\<rparr> in
      if \<not> run h then Returned h
      else
        let l2 = (if nextIndex l1 \<ge> length (Checks h)
                  then l1\<lparr>nextIndex := 0, firstPass := False\<rparr> else l1)
        in if length (Checks h) > 0 then Unlocked h l2 else Locked h l2)"

text \<open>
  Line 151, \<^verbatim>\<open>h.runChecker(&h.Checks[nextIndex])\<close>, runs without the lock. The index
  expression panics out of range. \<^verbatim>\<open>runChecker\<close> writes through the pointer, that is, to
  the element of the slice.
\<close>

definition RunCheckers_check ::
  "('c \<Rightarrow> error option) \<Rightarrow> int \<Rightarrow> 'c Health \<Rightarrow> locals \<Rightarrow> panic + 'c Health"
where
  "RunCheckers_check check now h l =
     (if nextIndex l < length (Checks h)
      then (case runChecker check now (Checks h ! nextIndex l) of
              Inl p \<Rightarrow> Inl p
            | Inr c \<Rightarrow> Inr (h\<lparr>Checks := (Checks h)[nextIndex l := c]\<rparr>))
      else Inl IndexOutOfRange)"

text \<open>
  The same line in two halves, for the runs in which another goroutine acts while
  \<^verbatim>\<open>Check()\<close> is running. \<open>RunCheckers_call\<close> is the first half, up to the call of
  \<^verbatim>\<open>Check()\<close>: the checker that is called. \<open>RunCheckers_write\<close> is the second half, once
  \<^verbatim>\<open>Check()\<close> has returned \<open>err\<close>: the write through the pointer, when the pointer still
  points into the array of \<^verbatim>\<open>h.Checks\<close>. It goes to position \<^verbatim>\<open>nextIndex\<close> of that array,
  whichever entry is there by now. When a removal has cut the slice to that position or
  below, the position is outside the slice and the write changes no entry.
\<close>

definition RunCheckers_call :: "'c Health \<Rightarrow> locals \<Rightarrow> panic + 'c" where
  "RunCheckers_call h l =
     (if nextIndex l < length (Checks h)
      then (case checker (Checks h ! nextIndex l) of
              None \<Rightarrow> Inl NilPointerDereference
            | Some k \<Rightarrow> Inr k)
      else Inl IndexOutOfRange)"

definition RunCheckers_write :: "error option \<Rightarrow> int \<Rightarrow> 'c Health \<Rightarrow> locals \<Rightarrow> 'c Health" where
  "RunCheckers_write err now h l =
     (if nextIndex l < length (Checks h)
      then h\<lparr>Checks :=
             (Checks h)[nextIndex l := runChecker_record err now (Checks h ! nextIndex l)]\<rparr>
      else h)"

text \<open>Lines 152 to 164, under the lock: the cursor moves on and \<^verbatim>\<open>h.Healthy\<close> is computed anew.\<close>

definition RunCheckers_lock2 :: "'c Health \<Rightarrow> locals \<Rightarrow> 'c Health \<times> locals" where
  "RunCheckers_lock2 h l =
     (h\<lparr>Health.Healthy := RunCheckers_range True (Checks h)\<rparr>,
      l\<lparr>nextIndex := nextIndex l + 1\<rparr>)"

text \<open>
  One whole pass of the loop body after its sleep, when nothing else touches the registry
  while the check runs: the pass returns from \<^verbatim>\<open>RunCheckers\<close>, panics, or ends at line 164
  with a new state and new locals.
\<close>

datatype 'c pass = Return "'c Health" | Panic panic | Continue "'c Health" locals

definition RunCheckers_pass ::
  "('c \<Rightarrow> error option) \<Rightarrow> int \<Rightarrow> 'c Health \<Rightarrow> locals \<Rightarrow> 'c pass"
where
  "RunCheckers_pass check now h l =
     (case RunCheckers_lock1 h l of
        Returned h1 \<Rightarrow> Return h1
      | Locked h1 l1 \<Rightarrow> (case RunCheckers_lock2 h1 l1 of (h2, l2) \<Rightarrow> Continue h2 l2)
      | Unlocked h1 l1 \<Rightarrow>
          (case RunCheckers_check check now h1 l1 of
             Inl p \<Rightarrow> Panic p
           | Inr h1' \<Rightarrow> (case RunCheckers_lock2 h1' l1 of (h2, l2) \<Rightarrow> Continue h2 l2)))"

subsection \<open>The loop next to the other callers\<close>

text \<open>
  \<^verbatim>\<open>RunCheckers\<close> is meant to run in a goroutine of its own while other goroutines call
  \<^verbatim>\<open>AddCheck\<close>, \<^verbatim>\<open>RemoveCheck\<close> and \<^verbatim>\<open>StopCheckers\<close>. The mutex makes every locked section
  atomic, so a run of the whole is a sequence of such sections. The goroutine of the loop
  has not been started (\<open>Idle\<close>), is asleep at line 136 (\<open>Sleeping\<close>), is inside
  \<^verbatim>\<open>Check()\<close> at line 109 with the lock released (\<open>Checking\<close>), has returned from
  \<^verbatim>\<open>RunCheckers\<close> (\<open>Exited\<close>), or has panicked.
\<close>

datatype place = Idle | Sleeping | Checking | Exited | Crashed panic

text \<open>
  While a check runs the lock is free, and \<^verbatim>\<open>AddCheck\<close>, \<^verbatim>\<open>RemoveCheck\<close> and
  \<^verbatim>\<open>StopCheckers\<close> go through, from other goroutines or from inside \<^verbatim>\<open>Check()\<close>.
  \<^verbatim>\<open>runChecker\<close> holds a pointer to position \<^verbatim>\<open>nextIndex\<close> of the array that \<^verbatim>\<open>h.Checks\<close> had
  when the check began. \<^verbatim>\<open>RemoveCheck\<close> moves entries inside that array. The \<^verbatim>\<open>append\<close> of
  \<^verbatim>\<open>AddCheck\<close> writes into that array when its capacity allows and otherwise gives
  \<^verbatim>\<open>h.Checks\<close> a new array; the capacity is chosen by the Go runtime and is not part of the
  state here. \<open>moved\<close> says that an append has run since the pointer was taken, so that the
  array of \<^verbatim>\<open>h.Checks\<close> may be a new one. It is cleared when a check begins and read only
  while a check runs.
\<close>

record 'c system =
  registry :: "'c Health"
  frequency :: int
  vars :: locals
  at :: place
  moved :: bool

text \<open>
  The steps. \<open>CallRunCheckers f\<close>: \<^verbatim>\<open>RunCheckers(f)\<close> is called and runs to its first sleep.
  \<open>Wake\<close>: the sleep ends, the loop takes the lock at line 139 and runs to its next
  unlock. \<open>Checked err now\<close>: \<^verbatim>\<open>Check()\<close> returns \<open>err\<close>, the clock reads \<open>now\<close>,
  \<^verbatim>\<open>runChecker\<close> writes the result into the array of \<^verbatim>\<open>h.Checks\<close>, the loop takes the lock
  at line 152 and runs to line 164. \<open>CheckedLost\<close>: the same when \<^verbatim>\<open>h.Checks\<close> has a new
  array; the write goes to the old one and no entry of the registry changes. The others
  are calls from other goroutines.
\<close>

datatype 'c event =
    CallRunCheckers int
  | Wake
  | Checked "error option" int
  | CheckedLost
  | CallAddCheck string bool "'c option"
  | CallRemoveCheck string
  | CallStopCheckers

text \<open>
  \<open>next_system s e\<close> is the state after step \<open>e\<close>, or \<open>None\<close> when \<open>e\<close> cannot happen in
  \<open>s\<close>. \<^verbatim>\<open>RunCheckers\<close> is called when no loop is running. After an append during the
  check both \<open>Checked\<close> and \<open>CheckedLost\<close> can happen; without one only \<open>Checked\<close> can.
\<close>

fun next_system :: "'c system \<Rightarrow> 'c event \<Rightarrow> 'c system option" where
  "next_system s (CallRunCheckers f) =
     (if at s = Idle \<or> at s = Exited then
        (case RunCheckers_start (registry s) of
           (h, l) \<Rightarrow> Some (s\<lparr>registry := h, frequency := f, vars := l, at := Sleeping\<rparr>))
      else None)"
| "next_system s Wake =
     (if at s = Sleeping then
        (case RunCheckers_lock1 (registry s) (vars s) of
           Returned h \<Rightarrow> Some (s\<lparr>registry := h, at := Exited\<rparr>)
         | Locked h l \<Rightarrow>
             (case RunCheckers_lock2 h l of
                (h2, l2) \<Rightarrow> Some (s\<lparr>registry := h2, vars := l2\<rparr>))
         | Unlocked h l \<Rightarrow>
             (case RunCheckers_call h l of
                Inl p \<Rightarrow> Some (s\<lparr>registry := h, vars := l, at := Crashed p\<rparr>)
              | Inr k \<Rightarrow>
                  Some (s\<lparr>registry := h, vars := l, at := Checking, moved := False\<rparr>)))
      else None)"
| "next_system s (Checked err now) =
     (if at s = Checking then
        (case RunCheckers_lock2 (RunCheckers_write err now (registry s) (vars s)) (vars s) of
           (h2, l2) \<Rightarrow> Some (s\<lparr>registry := h2, vars := l2, at := Sleeping\<rparr>))
      else None)"
| "next_system s CheckedLost =
     (if at s = Checking \<and> moved s then
        (case RunCheckers_lock2 (registry s) (vars s) of
           (h2, l2) \<Rightarrow> Some (s\<lparr>registry := h2, vars := l2, at := Sleeping\<rparr>))
      else None)"
| "next_system s (CallAddCheck service observeOnly chk) =
     (if at s = Idle \<or> at s = Sleeping \<or> at s = Checking \<or> at s = Exited
      then Some (s\<lparr>registry := AddCheck (registry s) service observeOnly chk,
                   moved := (moved s \<or>
                     AddCheck_range (Checks (registry s)) service observeOnly chk = None)\<rparr>)
      else None)"
| "next_system s (CallRemoveCheck service) =
     (if at s = Idle \<or> at s = Sleeping \<or> at s = Checking \<or> at s = Exited then
        (case RemoveCheck (registry s) service of
           Inl p \<Rightarrow> Some (s\<lparr>at := Crashed p\<rparr>)
         | Inr h \<Rightarrow> Some (s\<lparr>registry := h\<rparr>))
      else None)"
| "next_system s CallStopCheckers =
     (if at s = Idle \<or> at s = Sleeping \<or> at s = Checking \<or> at s = Exited
      then Some (s\<lparr>registry := StopCheckers (registry s)\<rparr>)
      else None)"

fun run_system :: "'c system \<Rightarrow> 'c event list \<Rightarrow> 'c system option" where
  "run_system s [] = Some s"
| "run_system s (e # es) =
     (case next_system s e of None \<Rightarrow> None | Some s' \<Rightarrow> run_system s' es)"

text \<open>
  A registry just made, with no loop started. The locals do not exist yet; the record
  holds the values of lines 122 and 123.
\<close>

definition new_system :: "'c system" where
  "new_system =
     \<lparr>registry = MakeHealth, frequency = 0,
      vars = \<lparr>nextIndex = 0, firstPass = True, count_var = 0\<rparr>, at = Idle, moved = False\<rparr>"

text \<open>The length of the sleep that a sleeping loop is in (lines 132 to 136).\<close>

definition current_sleep :: "'c system \<Rightarrow> int" where
  "current_sleep s = sleepDuration (frequency s) (vars s)"

text \<open>The steps that are calls from outside the loop.\<close>

fun is_call :: "'c event \<Rightarrow> bool" where
  "is_call Wake = False"
| "is_call (Checked err now) = False"
| "is_call CheckedLost = False"
| "is_call e = True"

text \<open>A sequence of calls of \<^verbatim>\<open>AddCheck\<close>, each given by its three arguments.\<close>

fun AddChecks :: "'c Health \<Rightarrow> (string \<times> bool \<times> 'c option) list \<Rightarrow> 'c Health" where
  "AddChecks h [] = h"
| "AddChecks h ((service, observeOnly, chk) # calls) =
     AddChecks (AddCheck h service observeOnly chk) calls"

subsection \<open>The reference HTTP check\<close>

text \<open>\<^verbatim>\<open>%d\<close> of \<^verbatim>\<open>fmt\<close>: an \<^verbatim>\<open>int\<close> in decimal, with a minus sign when negative.\<close>

fun digits :: "nat \<Rightarrow> string" where
  "digits n =
     (if n < 10 then [''0123456789'' ! n]
      else digits (n div 10) @ [''0123456789'' ! (n mod 10)])"

declare digits.simps [simp del]

definition fmt_d :: "int \<Rightarrow> string" where
  "fmt_d i = (if i < 0 then CHR ''-'' # digits (nat (- i)) else digits (nat i))"

text \<open>
  What \<^verbatim>\<open>client.Get\<close> hands back when it reports no error: the status code, and in place of
  the body the error, if any, that reading it to its end gives
  (\<^verbatim>\<open>io.Copy(io.Discard, resp.Body)\<close>).
\<close>

record Response =
  StatusCode :: int
  Body :: "error option"

text \<open>
  \<^verbatim>\<open>httpChecker.Check\<close>. The network is the argument \<open>get\<close>: the result of
  \<^verbatim>\<open>client.Get(hc.url)\<close>, an error or a response.
\<close>

definition Check :: "(Client \<Rightarrow> string \<Rightarrow> error + Response) \<Rightarrow> httpChecker \<Rightarrow> error option" where
  "Check get hc =
     (case get (httpClient hc) (url hc) of
        Inl err \<Rightarrow> Some err
      | Inr resp \<Rightarrow>
          (case Body resp of
             Some err \<Rightarrow> Some err
           | None \<Rightarrow>
               if StatusCode resp \<ge> 200 \<and> StatusCode resp < 400 then None
               else Some (Error (''HTTP status code '' @ fmt_d (StatusCode resp) @ '' returned''))))"

subsection \<open>The status handler\<close>

text \<open>
  What the handler does to its \<^verbatim>\<open>http.ResponseWriter\<close>: the header fields it sets (under
  their canonical names, as \<^verbatim>\<open>Header().Set\<close> stores them), the code given to
  \<^verbatim>\<open>WriteHeader\<close>, if any, and the bytes handed to \<^verbatim>\<open>Write\<close>.
\<close>

record ResponseWriter =
  header :: "string \<rightharpoonup> string"
  status :: "nat option"
  body :: string

definition NewResponseWriter :: ResponseWriter where
  "NewResponseWriter = \<lparr>header = Map.empty, status = None, body = []\<rparr>"

text \<open>
  The function that \<^verbatim>\<open>HTTPHandler\<close> returns. \<^verbatim>\<open>json.Marshal\<close> is the argument \<open>marshal\<close>,
  and \<open>wrote\<close> is what \<^verbatim>\<open>w.Write\<close> returns for the data: the number of bytes written and
  an error or none. The second component of the result is what goes to the log.
\<close>

definition HTTPHandler ::
  "('c Health \<Rightarrow> error + string) \<Rightarrow> (string \<Rightarrow> int \<times> error option) \<Rightarrow> 'c Health \<Rightarrow>
     ResponseWriter \<Rightarrow> ResponseWriter \<times> string list"
where
  "HTTPHandler marshal wrote h w =
     (let w1 = w\<lparr>header := (header w)(''Content-Type'' \<mapsto> ''application/json'')\<rparr>;
          healthy = Health.Healthy h
      in case marshal h of
           Inl err \<Rightarrow>
             (w1\<lparr>status := Some 500\<rparr>, [''Healthcheck HTTPHandler: '' @ description err])
         | Inr data \<Rightarrow>
             (let w2 = w1\<lparr>status := Some (if healthy then 200 else 418)\<rparr>;
                  w3 = w2\<lparr>body := body w2 @ data\<rparr>;
                  (written, err) = wrote data
              in (w3,
                  (case err of
                     None \<Rightarrow> []
                   | Some e \<Rightarrow> [''when writing body: '' @ description e]) @
                  (if written \<noteq> int (length data)
                   then [''unable to write entire body, '' @ fmt_d written @ '' of '' @
                         fmt_d (int (length data)) @ '' bytes'']
                   else []))))"

subsection \<open>Reading a decimal numeral\<close>

text \<open>
  The number that a string of decimal digits denotes, most significant digit first. It is
  not part of the program: it says what \<open>fmt_d\<close> prints.
\<close>

fun decimal :: "string \<Rightarrow> nat \<Rightarrow> nat" where
  "decimal [] a = a"
| "decimal (c # cs) a = decimal cs (10 * a + (of_char c - 48))"

subsection \<open>Example registries\<close>

text \<open>
  A registry with the critical check \<open>db\<close> and the observe-only check \<open>cache\<close>, its first
  entry, and the state in which a loop started on it is running its first check.
\<close>

definition db_entry :: "nat healthIndicator" where
  "db_entry = \<lparr>Service = ''db'', Healthy = True, Message = [], ObserveOnly = False,
     LastChecked = 0, checker = Some 7\<rparr>"

definition two_checks :: "nat Health" where
  "two_checks = AddChecks MakeHealth [(''db'', False, Some 1), (''cache'', True, Some 2)]"

definition checking_db :: "nat system" where
  "checking_db =
     \<lparr>registry = fst (RunCheckers_start two_checks), frequency = 10,
      vars = snd (RunCheckers_start two_checks), at = Checking, moved = False\<rparr>"

text \<open>
  The loop on a registry with the one check \<open>db\<close>, started with frequency 10, asleep for
  the second time and for the third time.
\<close>

definition second_sleep :: "nat system" where
  "second_sleep =
     \<lparr>registry = \<lparr>run = True, client = DefaultClient, Healthy = True,
                  Checks = [\<lparr>Service = ''db'', Healthy = True, Message = ''OK'',
                             ObserveOnly = False, LastChecked = 1, checker = Some 1\<rparr>]\<rparr>,
      frequency = 10,
      vars = \<lparr>nextIndex = 1, firstPass = True, count_var = 2\<rparr>,
      at = Sleeping, moved = False\<rparr>"

definition third_sleep :: "nat system" where
  "third_sleep =
     \<lparr>registry = \<lparr>run = True, client = DefaultClient, Healthy = True,
                  Checks = [\<lparr>Service = ''db'', Healthy = True, Message = ''OK'',
                             ObserveOnly = False, LastChecked = 2, checker = Some 1\<rparr>]\<rparr>,
      frequency = 10,
      vars = \<lparr>nextIndex = 1, firstPass = False, count_var = 2\<rparr>,
      at = Sleeping, moved = False\<rparr>"

text \<open>
  The same loop after \<^verbatim>\<open>AddCheck\<close> was called with the new name \<open>new\<close> while the check of
  its second pass ran: asleep for the third time, with two checks.
\<close>

definition asleep_after_add :: "nat system" where
  "asleep_after_add =
     \<lparr>registry = \<lparr>run = True, client = DefaultClient, Healthy = True,
                  Checks = [\<lparr>Service = ''db'', Healthy = True, Message = ''OK'',
                             ObserveOnly = False, LastChecked = 2, checker = Some 1\<rparr>,
                            \<lparr>Service = ''new'', Healthy = True, Message = [],
                             ObserveOnly = False, LastChecked = 0, checker = Some 2\<rparr>]\<rparr>,
      frequency = 10,
      vars = \<lparr>nextIndex = 1, firstPass = False, count_var = 2\<rparr>,
      at = Sleeping, moved = True\<rparr>"

text \<open>
  The same loop after \<^verbatim>\<open>StopCheckers\<close> was called while its first check ran: the check has
  returned and the loop is asleep for the second time.
\<close>

definition stopped_asleep :: "nat system" where
  "stopped_asleep =
     \<lparr>registry = \<lparr>run = False, client = DefaultClient, Healthy = True,
                  Checks = [\<lparr>Service = ''db'', Healthy = True, Message = ''OK'',
                             ObserveOnly = False, LastChecked = 1, checker = Some 1\<rparr>]\<rparr>,
      frequency = 10,
      vars = \<lparr>nextIndex = 1, firstPass = True, count_var = 2\<rparr>,
      at = Sleeping, moved = False\<rparr>"

section \<open>Properties of the registry\<close>

subsection \<open>The two loops over the checks\<close>

lemma AddCheck_range_None: "(AddCheck_range cs service observeOnly chk = None) = (service \<notin> Service ` set cs)"
  by (induction cs) auto

lemma AddCheck_present: "service \<in> Service ` set (Checks h) \<Longrightarrow> AddCheck h service observeOnly chk = h"
  using AddCheck_range_None [of "Checks h" service observeOnly chk]
  by (auto simp: AddCheck_def split: option.splits)

lemma AddCheck_absent:
  "service \<notin> Service ` set (Checks h) \<Longrightarrow>
   AddCheck h service observeOnly chk =
     h\<lparr>Checks := Checks h @
        [\<lparr>Service = service, Healthy = True, Message = [], ObserveOnly = observeOnly,
          LastChecked = 0, checker = chk\<rparr>]\<rparr>"
  using AddCheck_range_None [of "Checks h" service observeOnly chk]
  by (auto simp: AddCheck_def split: option.splits)

lemma RemoveCheck_range_None:
  "(RemoveCheck_range cs k service = None) = (service \<notin> Service ` set cs)"
  by (induction cs arbitrary: k) auto

lemma RemoveCheck_range_Some:
  "RemoveCheck_range cs k service = Some idx \<Longrightarrow>
     k \<le> idx \<and> idx - k < length cs \<and> Service (cs ! (idx - k)) = service \<and>
     (\<forall>j < idx - k. Service (cs ! j) \<noteq> service)"
proof (induction cs arbitrary: k)
  case Nil
  then show ?case by simp
next
  case (Cons c cs)
  show ?case
  proof (cases "Service c = service")
    case True
    with Cons.prems show ?thesis by simp
  next
    case False
    with Cons.prems have r: "RemoveCheck_range cs (Suc k) service = Some idx" by simp
    from Cons.IH [OF r] have ih: "Suc k \<le> idx" "idx - Suc k < length cs"
      "Service (cs ! (idx - Suc k)) = service" "\<forall>j < idx - Suc k. Service (cs ! j) \<noteq> service"
      by auto
    from ih(1) have e: "idx - k = Suc (idx - Suc k)" by arith
    show ?thesis
      using ih False unfolding e by (auto simp: nth_Cons split: nat.splits)
  qed
qed

lemma mset_swap_remove:
  assumes "i < length s"
  shows "mset (butlast (s[i := last s])) = mset s - {#s ! i#}"
proof -
  from assms have ne: "s \<noteq> []" by auto
  then have s: "s = butlast s @ [last s]" by simp
  show ?thesis
  proof (cases "i = length s - 1")
    case True
    then have "s ! i = last s" using ne by (simp add: last_conv_nth)
    then have "s[i := last s] = s" by (metis list_update_id)
    moreover have "mset s = mset (butlast s) + {#last s#}" by (subst s) simp
    ultimately show ?thesis using \<open>s ! i = last s\<close> by simp
  next
    case False
    with assms have i: "i < length (butlast s)" by simp
    have "(butlast s @ [last s])[i := last s] = (butlast s)[i := last s] @ [last s]"
      using i by (rule list_update_append1)
    then have "s[i := last s] = (butlast s)[i := last s] @ [last s]"
      using ne by simp
    then have "butlast (s[i := last s]) = (butlast s)[i := last s]" by simp
    moreover have "s ! i = butlast s ! i" using i by (simp add: nth_butlast)
    moreover have "mset s = mset (butlast s) + {#last s#}" by (subst s) simp
    moreover have "butlast s ! i \<in># mset (butlast s)" using i by simp
    ultimately show ?thesis using i by (simp add: mset_update)
  qed
qed

lemma removeChecker_in_range:
  "i < length s \<Longrightarrow> removeChecker s i = Inr (butlast (s[i := last s]))"
  by (simp add: removeChecker_def)

lemma AddCheck_names:
  "map Service (Checks (AddCheck h service observeOnly chk)) =
     (if service \<in> Service ` set (Checks h) then map Service (Checks h)
      else map Service (Checks h) @ [service])"
  by (simp add: AddCheck_present AddCheck_absent)

lemma AddChecks_names:
  "distinct (map fst calls) \<Longrightarrow> \<forall>n \<in> set (map fst calls). n \<notin> Service ` set (Checks h) \<Longrightarrow>
   map Service (Checks (AddChecks h calls)) = map Service (Checks h) @ map fst calls"
proof (induction calls arbitrary: h)
  case Nil
  then show ?case by simp
next
  case (Cons a calls)
  obtain n ob k where a: "a = (n, ob, k)" by (cases a)
  from Cons.prems have fresh: "n \<notin> Service ` set (Checks h)" by (simp add: a)
  have names: "map Service (Checks (AddCheck h n ob k)) = map Service (Checks h) @ [n]"
    using fresh by (simp add: AddCheck_names)
  have "\<forall>m \<in> set (map fst calls). m \<notin> Service ` set (Checks (AddCheck h n ob k))"
  proof
    fix m assume m: "m \<in> set (map fst calls)"
    then have "m \<noteq> n" using Cons.prems(1) by (auto simp: a)
    moreover have "m \<notin> Service ` set (Checks h)" using Cons.prems(2) m by auto
    moreover have "Service ` set (Checks (AddCheck h n ob k)) = set (map Service (Checks h) @ [n])"
      using names by (metis set_map)
    ultimately show "m \<notin> Service ` set (Checks (AddCheck h n ob k))" by auto
  qed
  moreover have "distinct (map fst calls)" using Cons.prems(1) by simp
  ultimately have "map Service (Checks (AddChecks (AddCheck h n ob k) calls)) =
      map Service (Checks (AddCheck h n ob k)) @ map fst calls"
    by (rule Cons.IH [rotated])
  then show ?case by (simp add: a names)
qed

lemma AddCheck_distinct:
  "distinct (map Service (Checks h)) \<Longrightarrow>
   distinct (map Service (Checks (AddCheck h service observeOnly chk)))"
  by (simp add: AddCheck_names)

lemma AddChecks_distinct:
  "distinct (map Service (Checks h)) \<Longrightarrow> distinct (map Service (Checks (AddChecks h calls)))"
proof (induction calls arbitrary: h)
  case Nil
  then show ?case by simp
next
  case (Cons a calls)
  obtain n ob k where a: "a = (n, ob, k)" by (cases a)
  show ?case unfolding a AddChecks.simps
    by (rule Cons.IH) (rule AddCheck_distinct [OF Cons.prems])
qed

subsection \<open>Adding a check under a name that is taken\<close>

text \<open>
  C1: a call of \<^verbatim>\<open>AddCheck\<close> with a name that is already registered is said to put the new
  probe and the new observe-only flag into the entry of that name. The code assigns both to
  the iteration variable of its \<^verbatim>\<open>range\<close> loop, which is a copy of the entry, and returns:
  the registry is left exactly as it was. Here the check \<open>db\<close> is registered with probe 1
  and not observe-only, and is registered again with probe 2 and observe-only; afterwards
  the entry still holds probe 1 and is still not observe-only.
\<close>

theorem AddCheck_taken_name_keeps_probe:
  "AddCheck (AddCheck MakeHealth ''db'' False (Some (1::nat))) ''db'' True (Some 2) =
     AddCheck MakeHealth ''db'' False (Some 1)
   \<and> map checker (Checks (AddCheck (AddCheck MakeHealth ''db'' False (Some (1::nat)))
         ''db'' True (Some 2))) = [Some 1]
   \<and> map ObserveOnly (Checks (AddCheck (AddCheck MakeHealth ''db'' False (Some (1::nat)))
         ''db'' True (Some 2))) = [False]"
  by (simp add: AddCheck_def MakeHealth_def)

subsection \<open>Removing a check\<close>

text \<open>
  C7: when the name is registered, \<^verbatim>\<open>RemoveCheck\<close> does not panic; it takes the first entry
  \<open>i\<close> of that name, overwrites it with the last entry and cuts the last position off. What
  is left are the other entries (as a multiset, so up to their order), one fewer than
  before, and no other field of the registry changes. When the name is not registered,
  \<^verbatim>\<open>RemoveCheck\<close> returns the registry as it was.
\<close>

theorem RemoveCheck_swaps_last_in:
  "(service \<in> Service ` set (Checks h) \<longrightarrow>
      (\<exists>i h'. RemoveCheck h service = Inr h' \<and>
         i < length (Checks h) \<and> Service (Checks h ! i) = service \<and>
         (\<forall>j<i. Service (Checks h ! j) \<noteq> service) \<and>
         h' = h\<lparr>Checks := butlast ((Checks h)[i := last (Checks h)])\<rparr> \<and>
         mset (Checks h') = mset (Checks h) - {#Checks h ! i#} \<and>
         length (Checks h') + 1 = length (Checks h)))
   \<and> (service \<notin> Service ` set (Checks h) \<longrightarrow> RemoveCheck h service = Inr h)"
proof (intro conjI impI)
  assume "service \<in> Service ` set (Checks h)"
  then obtain idx where r: "RemoveCheck_range (Checks h) 0 service = Some idx"
    using RemoveCheck_range_None [of "Checks h" 0 service] by auto
  from RemoveCheck_range_Some [OF r]
  have i: "idx < length (Checks h)" "Service (Checks h ! idx) = service"
    "\<forall>j<idx. Service (Checks h ! j) \<noteq> service" by auto
  let ?h' = "h\<lparr>Checks := butlast ((Checks h)[idx := last (Checks h)])\<rparr>"
  have "RemoveCheck h service = Inr ?h'"
    using r i(1) by (simp add: RemoveCheck_def removeChecker_in_range)
  moreover have "mset (Checks ?h') = mset (Checks h) - {#Checks h ! idx#}"
    using i(1) by (simp add: mset_swap_remove)
  moreover have "length (Checks ?h') + 1 = length (Checks h)"
    using i(1) by simp
  ultimately show "\<exists>i h'. RemoveCheck h service = Inr h' \<and>
         i < length (Checks h) \<and> Service (Checks h ! i) = service \<and>
         (\<forall>j<i. Service (Checks h ! j) \<noteq> service) \<and>
         h' = h\<lparr>Checks := butlast ((Checks h)[i := last (Checks h)])\<rparr> \<and>
         mset (Checks h') = mset (Checks h) - {#Checks h ! i#} \<and>
         length (Checks h') + 1 = length (Checks h)"
    using i by blast
next
  assume "service \<notin> Service ` set (Checks h)"
  then have "RemoveCheck_range (Checks h) 0 service = None"
    by (simp add: RemoveCheck_range_None)
  then show "RemoveCheck h service = Inr h"
    by (simp add: RemoveCheck_def)
qed

theorem RemoveCheck_swaps_last_in_witness:
  "''a'' \<in> Service ` set (Checks (AddChecks (MakeHealth :: nat Health)
       [(''a'', False, Some 1), (''b'', True, Some 2), (''c'', False, Some 3)]))
   \<and> ''z'' \<notin> Service ` set (Checks (AddChecks (MakeHealth :: nat Health)
       [(''a'', False, Some 1), (''b'', True, Some 2), (''c'', False, Some 3)]))
   \<and> (\<exists>h'. RemoveCheck (AddChecks (MakeHealth :: nat Health)
       [(''a'', False, Some 1), (''b'', True, Some 2), (''c'', False, Some 3)]) ''a'' = Inr h'
       \<and> map Service (Checks h') = [''c'', ''b''])
   \<and> RemoveCheck (AddChecks (MakeHealth :: nat Health)
       [(''a'', False, Some 1), (''b'', True, Some 2), (''c'', False, Some 3)]) ''z''
     = Inr (AddChecks MakeHealth [(''a'', False, Some 1), (''b'', True, Some 2), (''c'', False, Some 3)])"
  using RemoveCheck_swaps_last_in [of "''a''" "AddChecks (MakeHealth :: nat Health)
       [(''a'', False, Some 1), (''b'', True, Some 2), (''c'', False, Some 3)]"]
    RemoveCheck_swaps_last_in [of "''z''" "AddChecks (MakeHealth :: nat Health)
       [(''a'', False, Some 1), (''b'', True, Some 2), (''c'', False, Some 3)]"]
  by (simp add: AddCheck_def MakeHealth_def RemoveCheck_def removeChecker_def)

subsection \<open>Adding a check under a new name\<close>

text \<open>
  C8: a call of \<^verbatim>\<open>AddCheck\<close> with a name that is not registered appends an entry with that
  name, \<^verbatim>\<open>Healthy\<close> true, an empty message, the given observe-only flag, \<^verbatim>\<open>LastChecked\<close> 0
  and the given probe. So after calls with pairwise distinct names on a new registry there
  are as many entries as calls, their names are the names of the calls in order, and no
  name occurs twice.
\<close>

theorem AddCheck_new_name_appends:
  fixes h :: "'c Health" and calls :: "(string \<times> bool \<times> 'c option) list"
  shows "(service \<notin> Service ` set (Checks h) \<longrightarrow>
      AddCheck h service observeOnly chk =
        h\<lparr>Checks := Checks h @
           [\<lparr>Service = service, Healthy = True, Message = [], ObserveOnly = observeOnly,
             LastChecked = 0, checker = chk\<rparr>]\<rparr>)
   \<and> (distinct (map fst calls) \<longrightarrow>
        length (Checks (AddChecks MakeHealth calls)) = length calls \<and>
        map Service (Checks (AddChecks MakeHealth calls)) = map fst calls \<and>
        distinct (map Service (Checks (AddChecks MakeHealth calls))))"
proof (intro conjI impI)
  assume "service \<notin> Service ` set (Checks h)"
  then show "AddCheck h service observeOnly chk =
        h\<lparr>Checks := Checks h @
           [\<lparr>Service = service, Healthy = True, Message = [], ObserveOnly = observeOnly,
             LastChecked = 0, checker = chk\<rparr>]\<rparr>"
    by (rule AddCheck_absent)
next
  assume d: "distinct (map fst calls)"
  have n: "map Service (Checks (AddChecks (MakeHealth :: 'c Health) calls)) = map fst calls"
    using AddChecks_names [OF d, of "MakeHealth :: 'c Health"] by (simp add: MakeHealth_def)
  show "map Service (Checks (AddChecks (MakeHealth :: 'c Health) calls)) = map fst calls" by (rule n)
  show "distinct (map Service (Checks (AddChecks (MakeHealth :: 'c Health) calls)))" using n d by simp
  have "length (map Service (Checks (AddChecks (MakeHealth :: 'c Health) calls))) = length (map fst calls)"
    using n by simp
  then show "length (Checks (AddChecks (MakeHealth :: 'c Health) calls)) = length calls" by simp
qed

theorem AddCheck_new_name_appends_witness:
  "''b'' \<notin> Service ` set (Checks (AddCheck (MakeHealth :: nat Health) ''a'' False (Some 1)))
   \<and> Checks (AddCheck (AddCheck (MakeHealth :: nat Health) ''a'' False (Some 1)) ''b'' True None) =
       [\<lparr>Service = ''a'', Healthy = True, Message = [], ObserveOnly = False,
          LastChecked = 0, checker = Some 1\<rparr>,
        \<lparr>Service = ''b'', Healthy = True, Message = [], ObserveOnly = True,
          LastChecked = 0, checker = None\<rparr>]
   \<and> distinct (map fst [(''a'', False, Some (1::nat)), (''b'', True, None)])
   \<and> length (Checks (AddChecks MakeHealth [(''a'', False, Some (1::nat)), (''b'', True, None)])) = 2"
  using AddCheck_new_name_appends [of "''b''" "AddCheck (MakeHealth :: nat Health) ''a'' False (Some 1)"
      True None "[(''a'', False, Some (1::nat)), (''b'', True, None)]"]
  by (simp add: AddCheck_def MakeHealth_def)

section \<open>Properties of a check run\<close>

lemma uint64_of_clock:
  assumes "0 < now" and "now < 2 ^ 63"
  shows "uint (word_of_int now :: 64 word) = now" and "0 < (word_of_int now :: 64 word)"
proof -
  have "(2::int) ^ 63 \<le> 2 ^ 64" by (rule power_increasing) simp_all
  then have lt: "now < 2 ^ 64" using assms(2) by linarith
  have "uint (word_of_int now :: 64 word) = now mod 2 ^ 64"
    by (simp add: uint_word_of_int)
  also have "\<dots> = now" using assms(1) lt by (intro mod_pos_pos_trivial) linarith+
  finally show u: "uint (word_of_int now :: 64 word) = now" .
  have "(word_of_int now :: 64 word) \<noteq> 0"
  proof
    assume "(word_of_int now :: 64 word) = 0"
    then have "uint (word_of_int now :: 64 word) = 0" by simp
    with u assms(1) show False by simp
  qed
  then show "0 < (word_of_int now :: 64 word)" by (simp add: word_neq_0_conv)
qed

lemma runChecker_record_ok:
  "healthIndicator.Healthy (runChecker_record None now c) \<and>
   Message (runChecker_record None now c) = ''OK''"
  by (simp add: runChecker_record_def)

lemma runChecker_record_failed:
  "\<not> healthIndicator.Healthy (runChecker_record (Some e) now c) \<and>
   Message (runChecker_record (Some e) now c) = Service c @ '' ERROR '' @ description e"
  by (simp add: runChecker_record_def)

lemma runChecker_record_frame:
  "LastChecked (runChecker_record err now c) = word_of_int now \<and>
   Service (runChecker_record err now c) = Service c \<and>
   ObserveOnly (runChecker_record err now c) = ObserveOnly c \<and>
   checker (runChecker_record err now c) = checker c"
  by (cases err) (simp_all add: runChecker_record_def)

lemma sublist_of_message:
  "sublist n (n @ '' ERROR '' @ d) \<and> sublist d (n @ '' ERROR '' @ d)"
proof
  have "n @ '' ERROR '' @ d = [] @ n @ ('' ERROR '' @ d)" by simp
  then show "sublist n (n @ '' ERROR '' @ d)" unfolding sublist_def by blast
  have "n @ '' ERROR '' @ d = (n @ '' ERROR '') @ d @ []" by simp
  then show "sublist d (n @ '' ERROR '' @ d)" unfolding sublist_def by blast
qed

text \<open>
  C3: for an entry with a probe, \<^verbatim>\<open>runChecker\<close> returns. When the probe reports success the
  entry is healthy with message \<open>OK\<close>. When it reports a failure the entry is unhealthy and
  its message is the name, the text \<^verbatim>\<open> ERROR \<close> and the description of the failure, so it
  contains both. In both cases \<^verbatim>\<open>LastChecked\<close> is the clock reading as a \<^verbatim>\<open>uint64\<close>; for a
  clock after the epoch that is the reading itself, and greater than zero. Name,
  observe-only flag and probe stay as they are.
\<close>

theorem runChecker_records_result:
  "checker c = Some k \<longrightarrow>
     (\<exists>c'. runChecker check now c = Inr c' \<and>
        (check k = None \<longrightarrow> healthIndicator.Healthy c' \<and> Message c' = ''OK'') \<and>
        (\<forall>e. check k = Some e \<longrightarrow>
           \<not> healthIndicator.Healthy c' \<and>
           Message c' = Service c @ '' ERROR '' @ description e \<and>
           sublist (Service c) (Message c') \<and> sublist (description e) (Message c')) \<and>
        LastChecked c' = word_of_int now \<and>
        (0 < now \<and> now < 2 ^ 63 \<longrightarrow> uint (LastChecked c') = now \<and> 0 < LastChecked c') \<and>
        Service c' = Service c \<and> ObserveOnly c' = ObserveOnly c \<and> checker c' = checker c)"
proof
  assume k: "checker c = Some k"
  let ?c' = "runChecker_record (check k) now c"
  have r: "runChecker check now c = Inr ?c'" using k by (simp add: runChecker_def)
  have ok: "check k = None \<longrightarrow> healthIndicator.Healthy ?c' \<and> Message ?c' = ''OK''"
    using runChecker_record_ok [of now c] by (cases "check k") simp_all
  have bad: "\<forall>e. check k = Some e \<longrightarrow>
           \<not> healthIndicator.Healthy ?c' \<and>
           Message ?c' = Service c @ '' ERROR '' @ description e \<and>
           sublist (Service c) (Message ?c') \<and> sublist (description e) (Message ?c')"
  proof (intro allI impI)
    fix e assume e: "check k = Some e"
    show "\<not> healthIndicator.Healthy ?c' \<and>
           Message ?c' = Service c @ '' ERROR '' @ description e \<and>
           sublist (Service c) (Message ?c') \<and> sublist (description e) (Message ?c')"
      unfolding e
      using runChecker_record_failed [of e now c] sublist_of_message [of "Service c" "description e"]
      by (simp del: append.simps)
  qed
  note f = runChecker_record_frame [of "check k" now c]
  have pos: "0 < now \<and> now < 2 ^ 63 \<longrightarrow> uint (LastChecked ?c') = now \<and> 0 < LastChecked ?c'"
  proof
    assume a: "0 < now \<and> now < 2 ^ 63"
    from a have a1: "0 < now" and a2: "now < 2 ^ 63" by blast+
    from f have t: "LastChecked ?c' = word_of_int now" by blast
    show "uint (LastChecked ?c') = now \<and> 0 < LastChecked ?c'"
      unfolding t using uint64_of_clock [OF a1 a2] by blast
  qed
  show "\<exists>c'. runChecker check now c = Inr c' \<and>
        (check k = None \<longrightarrow> healthIndicator.Healthy c' \<and> Message c' = ''OK'') \<and>
        (\<forall>e. check k = Some e \<longrightarrow>
           \<not> healthIndicator.Healthy c' \<and>
           Message c' = Service c @ '' ERROR '' @ description e \<and>
           sublist (Service c) (Message c') \<and> sublist (description e) (Message c')) \<and>
        LastChecked c' = word_of_int now \<and>
        (0 < now \<and> now < 2 ^ 63 \<longrightarrow> uint (LastChecked c') = now \<and> 0 < LastChecked c') \<and>
        Service c' = Service c \<and> ObserveOnly c' = ObserveOnly c \<and> checker c' = checker c"
    apply (rule exI [of _ ?c'])
    apply (intro conjI)
           apply (rule r)
          apply (rule ok)
         apply (rule bad)
    using f pos apply blast+
    done
qed

theorem runChecker_records_result_witness:
  "checker db_entry = Some 7
   \<and> (0 < (1700000000000::int) \<and> (1700000000000::int) < 2 ^ 63)
   \<and> runChecker (\<lambda>k. Some (Error ''timeout'')) 1700000000000 db_entry =
       Inr (db_entry\<lparr>healthIndicator.Healthy := False, Message := ''db ERROR timeout'',
              LastChecked := 1700000000000\<rparr>)
   \<and> sublist ''db'' ''db ERROR timeout'' \<and> sublist ''timeout'' ''db ERROR timeout''
   \<and> (0 :: 64 word) < 1700000000000
   \<and> runChecker (\<lambda>k. None) 1700000000000 db_entry =
       Inr (db_entry\<lparr>healthIndicator.Healthy := True, Message := ''OK'',
              LastChecked := 1700000000000\<rparr>)"
  using runChecker_records_result [of db_entry 7 "\<lambda>k. Some (Error ''timeout'')" 1700000000000]
    runChecker_records_result [of db_entry 7 "\<lambda>k. None" 1700000000000]
  by (simp add: db_entry_def runChecker_def runChecker_record_def)

section \<open>Properties of the aggregate\<close>

lemma RunCheckers_check_halves:
  "RunCheckers_check check now h l =
     (case RunCheckers_call h l of
        Inl p \<Rightarrow> Inl p
      | Inr k \<Rightarrow> Inr (RunCheckers_write (check k) now h l))"
  by (simp add: RunCheckers_check_def RunCheckers_call_def RunCheckers_write_def runChecker_def
      split: option.splits)

lemma RunCheckers_range_all:
  "RunCheckers_range acc cs =
     (acc \<and> (\<forall>c \<in> set cs. \<not> ObserveOnly c \<longrightarrow> healthIndicator.Healthy c))"
  by (induction cs arbitrary: acc) auto

lemma RunCheckers_lock2_Healthy:
  "RunCheckers_lock2 h l = (h', l') \<Longrightarrow>
     Checks h' = Checks h \<and>
     Health.Healthy h' = (\<forall>c \<in> set (Checks h). \<not> ObserveOnly c \<longrightarrow> healthIndicator.Healthy c)"
  by (auto simp: RunCheckers_lock2_def RunCheckers_range_all)

lemma RunCheckers_pass_Continue:
  assumes "RunCheckers_pass check now h l = Continue h' l'"
  shows "\<exists>h1 l1. RunCheckers_lock2 h1 l1 = (h', l')"
  using assms unfolding RunCheckers_pass_def
  by (auto split: section_end.splits sum.splits prod.splits)

lemma next_system_lock2:
  assumes "next_system s e = Some s'"
    and "e = Wake \<and> at s' = Sleeping \<or> e = Checked err now \<or> e = CheckedLost"
  shows "\<exists>h1 l1. RunCheckers_lock2 h1 l1 = (registry s', vars s')"
  using assms
  by (auto split: if_splits section_end.splits sum.splits prod.splits) blast+

lemma observe_only_flip:
  assumes "i < length cs" and "ObserveOnly (cs ! i)"
  shows "RunCheckers_range True (cs[i := (cs ! i)\<lparr>healthIndicator.Healthy := b\<rparr>]) =
         RunCheckers_range True cs"
proof -
  let ?c = "(cs ! i)\<lparr>healthIndicator.Healthy := b\<rparr>"
  have o: "ObserveOnly ?c" using assms(2) by simp
  have "(\<forall>c \<in> set (cs[i := ?c]). \<not> ObserveOnly c \<longrightarrow> healthIndicator.Healthy c) =
        (\<forall>c \<in> set cs. \<not> ObserveOnly c \<longrightarrow> healthIndicator.Healthy c)"
  proof
    assume a: "\<forall>c \<in> set (cs[i := ?c]). \<not> ObserveOnly c \<longrightarrow> healthIndicator.Healthy c"
    show "\<forall>c \<in> set cs. \<not> ObserveOnly c \<longrightarrow> healthIndicator.Healthy c"
    proof (intro ballI impI)
      fix c assume c: "c \<in> set cs" "\<not> ObserveOnly c"
      then obtain j where j: "j < length cs" "cs ! j = c" by (auto simp: in_set_conv_nth)
      with c(2) assms(2) have "j \<noteq> i" by auto
      then have "cs[i := ?c] ! j = c" using j by simp
      then have "c \<in> set (cs[i := ?c])" using j(1) by (metis length_list_update nth_mem)
      with a c(2) show "healthIndicator.Healthy c" by blast
    qed
  next
    assume a: "\<forall>c \<in> set cs. \<not> ObserveOnly c \<longrightarrow> healthIndicator.Healthy c"
    show "\<forall>c \<in> set (cs[i := ?c]). \<not> ObserveOnly c \<longrightarrow> healthIndicator.Healthy c"
    proof (intro ballI impI)
      fix c assume c: "c \<in> set (cs[i := ?c])" "\<not> ObserveOnly c"
      from c(1) have "c \<in> insert ?c (set cs)" using set_update_subset_insert by fast
      with c(2) o have "c \<in> set cs" by auto
      with a c(2) show "healthIndicator.Healthy c" by blast
    qed
  qed
  then show ?thesis by (simp add: RunCheckers_range_all)
qed

lemma two_checks_eq:
  "two_checks = \<lparr>run = False, client = DefaultClient, Healthy = False,
     Checks = [\<lparr>Service = ''db'', Healthy = True, Message = [], ObserveOnly = False,
                LastChecked = 0, checker = Some 1\<rparr>,
               \<lparr>Service = ''cache'', Healthy = True, Message = [], ObserveOnly = True,
                LastChecked = 0, checker = Some 2\<rparr>]\<rparr>"
  by (simp add: two_checks_def AddCheck_def MakeHealth_def)

lemma checking_db_reached:
  "run_system new_system
     [CallAddCheck ''db'' False (Some 1), CallAddCheck ''cache'' True (Some 2),
      CallRunCheckers 10, Wake] = Some checking_db"
  by (simp add: new_system_def checking_db_def two_checks_def AddCheck_def MakeHealth_def
      RunCheckers_start_def RunCheckers_lock1_def RunCheckers_call_def)

text \<open>
  C2: every pass of the loop that runs to its end (line 164), whether taken as a whole or
  as the step of the loop that ends it, leaves \<^verbatim>\<open>h.Healthy\<close> equal to the conjunction of
  the \<^verbatim>\<open>Healthy\<close> fields of the checks that are not observe-only. The last locked part of a
  pass does so on any registry, whatever happened to it before the lock was taken. With no
  such check the result is true. Setting the \<^verbatim>\<open>Healthy\<close> field of an observe-only check to any value does
  not change the result.
\<close>

theorem aggregate_is_conjunction:
  "(RunCheckers_pass check now h l = Continue h' l' \<longrightarrow>
      Health.Healthy h' =
        (\<forall>c \<in> set (Checks h'). \<not> ObserveOnly c \<longrightarrow> healthIndicator.Healthy c))
   \<and> (next_system s e = Some s' \<and> (e = Wake \<and> at s' = Sleeping \<or> e = Checked err t \<or> e = CheckedLost) \<longrightarrow>
        Health.Healthy (registry s') =
          (\<forall>c \<in> set (Checks (registry s')). \<not> ObserveOnly c \<longrightarrow> healthIndicator.Healthy c))
   \<and> (RunCheckers_lock2 ha la = (hb, lb) \<longrightarrow>
        Checks hb = Checks ha \<and>
        Health.Healthy hb =
          (\<forall>c \<in> set (Checks ha). \<not> ObserveOnly c \<longrightarrow> healthIndicator.Healthy c))
   \<and> ((\<forall>c \<in> set cs. ObserveOnly c) \<longrightarrow> RunCheckers_range True cs = True)
   \<and> (i < length cs \<and> ObserveOnly (cs ! i) \<longrightarrow>
        RunCheckers_range True (cs[i := (cs ! i)\<lparr>healthIndicator.Healthy := b\<rparr>]) =
        RunCheckers_range True cs)"
proof (intro conjI impI)
  assume "RunCheckers_lock2 ha la = (hb, lb)"
  from RunCheckers_lock2_Healthy [OF this]
  show "Checks hb = Checks ha" and "Health.Healthy hb =
          (\<forall>c \<in> set (Checks ha). \<not> ObserveOnly c \<longrightarrow> healthIndicator.Healthy c)"
    by simp_all
next
  assume "RunCheckers_pass check now h l = Continue h' l'"
  then obtain h1 l1 where "RunCheckers_lock2 h1 l1 = (h', l')"
    using RunCheckers_pass_Continue by blast
  from RunCheckers_lock2_Healthy [OF this]
  show "Health.Healthy h' =
        (\<forall>c \<in> set (Checks h'). \<not> ObserveOnly c \<longrightarrow> healthIndicator.Healthy c)" by simp
next
  assume a: "next_system s e = Some s' \<and> (e = Wake \<and> at s' = Sleeping \<or> e = Checked err t \<or> e = CheckedLost)"
  then obtain h1 l1 where "RunCheckers_lock2 h1 l1 = (registry s', vars s')"
    using next_system_lock2 [of s e s' err t] by blast
  from RunCheckers_lock2_Healthy [OF this]
  show "Health.Healthy (registry s') =
          (\<forall>c \<in> set (Checks (registry s')). \<not> ObserveOnly c \<longrightarrow> healthIndicator.Healthy c)"
    by simp
next
  assume "\<forall>c \<in> set cs. ObserveOnly c"
  then show "RunCheckers_range True cs = True" by (simp add: RunCheckers_range_all)
next
  assume "i < length cs \<and> ObserveOnly (cs ! i)"
  then show "RunCheckers_range True (cs[i := (cs ! i)\<lparr>healthIndicator.Healthy := b\<rparr>]) =
        RunCheckers_range True cs" by (simp add: observe_only_flip)
qed

theorem aggregate_is_conjunction_witness:
  "(\<exists>h' l'. RunCheckers_pass (\<lambda>k. Some (Error ''down'')) 5
        (fst (RunCheckers_start two_checks)) (snd (RunCheckers_start two_checks)) = Continue h' l' \<and>
      \<not> Health.Healthy h' \<and>
      Health.Healthy h' =
        (\<forall>c \<in> set (Checks h'). \<not> ObserveOnly c \<longrightarrow> healthIndicator.Healthy c))
   \<and> (\<exists>s'. next_system checking_db (Checked None 5) = Some s' \<and>
        Health.Healthy (registry s') \<and>
        Health.Healthy (registry s') =
          (\<forall>c \<in> set (Checks (registry s')). \<not> ObserveOnly c \<longrightarrow> healthIndicator.Healthy c))
   \<and> (\<exists>h2 l2. RunCheckers_lock2 two_checks (snd (RunCheckers_start two_checks)) = (h2, l2) \<and>
        Checks h2 = Checks two_checks \<and> Health.Healthy h2)
   \<and> list_all ObserveOnly (tl (Checks two_checks))
   \<and> RunCheckers_range True (tl (Checks two_checks)) = True
   \<and> 1 < length (Checks two_checks) \<and> ObserveOnly (Checks two_checks ! 1)
   \<and> RunCheckers_range True
        ((Checks two_checks)[1 := (Checks two_checks ! 1)\<lparr>healthIndicator.Healthy := False\<rparr>]) =
      RunCheckers_range True (Checks two_checks)"
proof -
  let ?h = "fst (RunCheckers_start two_checks)" and ?l = "snd (RunCheckers_start two_checks)"
  obtain h' l' where p: "RunCheckers_pass (\<lambda>k. Some (Error ''down'')) 5 ?h ?l = Continue h' l'"
    and u: "\<not> Health.Healthy h'"
    by (simp add: two_checks_eq RunCheckers_pass_def RunCheckers_start_def RunCheckers_lock1_def
        RunCheckers_check_def runChecker_def RunCheckers_lock2_def runChecker_record_def)
  obtain s' where n: "next_system checking_db (Checked None 5) = Some s'"
    and v: "Health.Healthy (registry s')"
    by (simp add: checking_db_def two_checks_eq RunCheckers_start_def
        RunCheckers_write_def RunCheckers_lock2_def runChecker_record_def)
  have o: "\<forall>c \<in> set (tl (Checks two_checks)). ObserveOnly c"
    by (simp add: two_checks_eq)
  have i: "1 < length (Checks two_checks) \<and> ObserveOnly (Checks two_checks ! 1)"
    by (simp add: two_checks_eq)
  note t1 = aggregate_is_conjunction [where check = "\<lambda>k. Some (Error ''down'')" and now = 5
      and h = ?h and l = ?l and h' = h' and l' = l' and s = checking_db and e = "Checked None 5"
      and s' = s' and err = None and t = 5 and cs = "tl (Checks two_checks)"]
  note t2 = aggregate_is_conjunction [where cs = "Checks two_checks" and i = 1 and b = False]
  have c1: "Health.Healthy h' =
      (\<forall>c \<in> set (Checks h'). \<not> ObserveOnly c \<longrightarrow> healthIndicator.Healthy c)"
    using t1 p by blast
  have c2: "Health.Healthy (registry s') =
      (\<forall>c \<in> set (Checks (registry s')). \<not> ObserveOnly c \<longrightarrow> healthIndicator.Healthy c)"
    using t1 n by blast
  have c3: "RunCheckers_range True (tl (Checks two_checks)) = True"
    using t1 o by blast
  have c4: "RunCheckers_range True
        ((Checks two_checks)[1 := (Checks two_checks ! 1)\<lparr>healthIndicator.Healthy := False\<rparr>]) =
      RunCheckers_range True (Checks two_checks)"
    using t2 i by blast
  have e1: "\<exists>h' l'. RunCheckers_pass (\<lambda>k. Some (Error ''down'')) 5 ?h ?l = Continue h' l' \<and>
      \<not> Health.Healthy h' \<and>
      Health.Healthy h' =
        (\<forall>c \<in> set (Checks h'). \<not> ObserveOnly c \<longrightarrow> healthIndicator.Healthy c)"
    using p u c1 by blast
  have e2: "\<exists>s'. next_system checking_db (Checked None 5) = Some s' \<and>
        Health.Healthy (registry s') \<and>
        Health.Healthy (registry s') =
          (\<forall>c \<in> set (Checks (registry s')). \<not> ObserveOnly c \<longrightarrow> healthIndicator.Healthy c)"
    using n v c2 by blast
  have o': "list_all ObserveOnly (tl (Checks two_checks))"
    using o by (simp add: list_all_iff)
  obtain h2 l2 where k: "RunCheckers_lock2 two_checks (snd (RunCheckers_start two_checks)) = (h2, l2)"
    by (cases "RunCheckers_lock2 two_checks (snd (RunCheckers_start two_checks))")
  have all: "\<forall>c \<in> set (Checks two_checks). \<not> ObserveOnly c \<longrightarrow> healthIndicator.Healthy c"
    by (simp add: two_checks_eq)
  from aggregate_is_conjunction [where ha = two_checks
      and la = "snd (RunCheckers_start two_checks)" and hb = h2 and lb = l2] k all
  have c5: "Checks h2 = Checks two_checks \<and> Health.Healthy h2" by blast
  have e3: "\<exists>h2 l2. RunCheckers_lock2 two_checks (snd (RunCheckers_start two_checks)) = (h2, l2) \<and>
        Checks h2 = Checks two_checks \<and> Health.Healthy h2"
    using k c5 by blast
  from e1 e2 e3 o' c3 i c4 show ?thesis by (intro conjI) blast+
qed

section \<open>Properties of the HTTP check\<close>

lemma decimal_append: "decimal (xs @ ys) a = decimal ys (decimal xs a)"
  by (induction xs arbitrary: a) auto

lemma digit_char: "d < 10 \<Longrightarrow> of_char (''0123456789'' ! d) = (48 + d :: nat)"
proof -
  assume "d < 10"
  then have "d = 0 \<or> d = 1 \<or> d = 2 \<or> d = 3 \<or> d = 4 \<or> d = 5 \<or> d = 6 \<or> d = 7 \<or> d = 8 \<or> d = 9"
    by arith
  then show ?thesis by (elim disjE) simp_all
qed

lemma decimal_digits: "decimal (digits n) 0 = n"
proof (induction n rule: digits.induct)
  case (1 n)
  show ?case
  proof (cases "n < 10")
    case True
    then show ?thesis by (subst digits.simps) (simp add: digit_char)
  next
    case False
    with 1 have "decimal (digits (n div 10)) 0 = n div 10" by simp
    then show ?thesis using False
      by (subst digits.simps) (simp add: decimal_append digit_char)
  qed
qed

lemma decimal_fmt_d: "0 \<le> i \<Longrightarrow> int (decimal (fmt_d i) 0) = i"
  by (simp add: fmt_d_def decimal_digits)

text \<open>
  C5: an error of the GET is returned as it is. An error of reading the body to its end is
  returned as it is. Otherwise a status code from 200 to 399 gives success, and any other
  code gives the failure \<^verbatim>\<open>HTTP status code <code> returned\<close> with the code in decimal:
  read as a decimal numeral, what is printed for a code that is not negative is the code.
\<close>

theorem Check_classifies:
  "(get (httpClient hc) (url hc) = Inl e \<longrightarrow> Check get hc = Some e)
   \<and> (get (httpClient hc) (url hc) = Inr resp \<and> Body resp = Some e \<longrightarrow> Check get hc = Some e)
   \<and> (get (httpClient hc) (url hc) = Inr resp \<and> Body resp = None \<and>
        200 \<le> StatusCode resp \<and> StatusCode resp \<le> 399 \<longrightarrow> Check get hc = None)
   \<and> (get (httpClient hc) (url hc) = Inr resp \<and> Body resp = None \<and>
        \<not> (200 \<le> StatusCode resp \<and> StatusCode resp \<le> 399) \<longrightarrow>
        Check get hc =
          Some (Error (''HTTP status code '' @ fmt_d (StatusCode resp) @ '' returned'')))
   \<and> (0 \<le> StatusCode resp \<longrightarrow> int (decimal (fmt_d (StatusCode resp)) 0) = StatusCode resp)"
  by (auto simp: Check_def decimal_fmt_d)

theorem Check_classifies_witness:
  "Check (\<lambda>c u. Inl (Error ''connection refused'')) (HTTPChecker (MakeHealth :: nat Health) ''http://localhost/'')
     = Some (Error ''connection refused'')
   \<and> Check (\<lambda>c u. Inr \<lparr>StatusCode = 200, Body = Some (Error ''unexpected EOF'')\<rparr>)
        (HTTPChecker (MakeHealth :: nat Health) ''http://localhost/'') = Some (Error ''unexpected EOF'')
   \<and> Check (\<lambda>c u. Inr \<lparr>StatusCode = 301, Body = None\<rparr>)
        (HTTPChecker (MakeHealth :: nat Health) ''http://localhost/'') = None
   \<and> Check (\<lambda>c u. Inr \<lparr>StatusCode = 404, Body = None\<rparr>)
        (HTTPChecker (MakeHealth :: nat Health) ''http://localhost/'')
     = Some (Error ''HTTP status code 404 returned'')"
  using
    Check_classifies [of "\<lambda>c u. Inl (Error ''connection refused'')"
      "HTTPChecker (MakeHealth :: nat Health) ''http://localhost/''" "Error ''connection refused''"]
    Check_classifies [of "\<lambda>c u. Inr \<lparr>StatusCode = 200, Body = Some (Error ''unexpected EOF'')\<rparr>"
      "HTTPChecker (MakeHealth :: nat Health) ''http://localhost/''" "Error ''unexpected EOF''"
      "\<lparr>StatusCode = 200, Body = Some (Error ''unexpected EOF'')\<rparr>"]
    Check_classifies [of "\<lambda>c u. Inr \<lparr>StatusCode = 301, Body = None\<rparr>"
      "HTTPChecker (MakeHealth :: nat Health) ''http://localhost/''" _
      "\<lparr>StatusCode = 301, Body = None\<rparr>"]
    Check_classifies [of "\<lambda>c u. Inr \<lparr>StatusCode = 404, Body = None\<rparr>"
      "HTTPChecker (MakeHealth :: nat Health) ''http://localhost/''" _
      "\<lparr>StatusCode = 404, Body = None\<rparr>"]
  by (simp add: fmt_d_def digits.simps)

section \<open>Properties of the status handler\<close>

text \<open>
  C6: on a new response writer, when \<^verbatim>\<open>json.Marshal\<close> fails the handler sets status 500
  and writes no body. Otherwise it sets status 200 when \<^verbatim>\<open>h.Healthy\<close> is true and 418 when
  it is false, the header \<^verbatim>\<open>Content-Type: application/json\<close> is set, and the marshalled data
  is what it writes as the body.
\<close>

theorem HTTPHandler_status:
  "(marshal h = Inl e \<longrightarrow>
      status (fst (HTTPHandler marshal wrote h NewResponseWriter)) = Some 500 \<and>
      body (fst (HTTPHandler marshal wrote h NewResponseWriter)) = [])
   \<and> (marshal h = Inr data \<longrightarrow>
        status (fst (HTTPHandler marshal wrote h NewResponseWriter)) =
          Some (if Health.Healthy h then 200 else 418) \<and>
        header (fst (HTTPHandler marshal wrote h NewResponseWriter)) ''Content-Type'' =
          Some ''application/json'' \<and>
        body (fst (HTTPHandler marshal wrote h NewResponseWriter)) = data)"
  by (auto simp: HTTPHandler_def NewResponseWriter_def Let_def split: prod.splits)

theorem HTTPHandler_status_witness:
  "status (fst (HTTPHandler (\<lambda>h. Inl (Error ''unsupported type'')) (\<lambda>d. (int (length d), None))
       (MakeHealth :: nat Health) NewResponseWriter)) = Some 500
   \<and> body (fst (HTTPHandler (\<lambda>h. Inl (Error ''unsupported type'')) (\<lambda>d. (int (length d), None))
       (MakeHealth :: nat Health) NewResponseWriter)) = []
   \<and> status (fst (HTTPHandler (\<lambda>h. Inr ''{}'') (\<lambda>d. (int (length d), None))
       (MakeHealth :: nat Health) NewResponseWriter)) = Some 418
   \<and> status (fst (HTTPHandler (\<lambda>h. Inr ''{\"healthy\":true}'') (\<lambda>d. (int (length d), None))
       ((MakeHealth :: nat Health)\<lparr>Health.Healthy := True\<rparr>) NewResponseWriter)) = Some 200
   \<and> body (fst (HTTPHandler (\<lambda>h. Inr ''{\"healthy\":true}'') (\<lambda>d. (int (length d), None))
       ((MakeHealth :: nat Health)\<lparr>Health.Healthy := True\<rparr>) NewResponseWriter)) = ''{\"healthy\":true}''"
  using
    HTTPHandler_status [of "\<lambda>h. Inl (Error ''unsupported type'')" "MakeHealth :: nat Health"
      "Error ''unsupported type''" "\<lambda>d. (int (length d), None)"]
    HTTPHandler_status [of "\<lambda>h. Inr ''{}''" "MakeHealth :: nat Health" _
      "\<lambda>d. (int (length d), None)" "''{}''"]
    HTTPHandler_status [of "\<lambda>h. Inr ''{\"healthy\":true}''"
      "(MakeHealth :: nat Health)\<lparr>Health.Healthy := True\<rparr>" _
      "\<lambda>d. (int (length d), None)" "''{\"healthy\":true}''"]
  by (simp add: MakeHealth_def)

section \<open>Properties of the loop\<close>

subsection \<open>What the calls and the parts of a pass leave unchanged\<close>

lemma AddCheck_frame:
  "run (AddCheck h service observeOnly chk) = run h \<and>
   Health.Healthy (AddCheck h service observeOnly chk) = Health.Healthy h \<and>
   client (AddCheck h service observeOnly chk) = client h"
  by (simp add: AddCheck_def split: option.splits)

lemma RemoveCheck_frame:
  "\<exists>h'. RemoveCheck h service = Inr h' \<and> run h' = run h \<and>
     Health.Healthy h' = Health.Healthy h \<and> client h' = client h"
proof (cases "RemoveCheck_range (Checks h) 0 service")
  case None
  then show ?thesis by (simp add: RemoveCheck_def)
next
  case (Some idx)
  from RemoveCheck_range_Some [OF Some] have "idx < length (Checks h)" by simp
  then show ?thesis using Some by (simp add: RemoveCheck_def removeChecker_def)
qed

lemma lock1_cases:
  "RunCheckers_lock1 h l =
     (if \<not> run h then Returned h
      else if Checks h = []
        then Locked h (l\<lparr>count_var := 1, nextIndex := 0, firstPass := False\<rparr>)
      else if nextIndex l < length (Checks h)
        then Unlocked h (l\<lparr>count_var := length (Checks h) + 1\<rparr>)
      else Unlocked h (l\<lparr>count_var := length (Checks h) + 1, nextIndex := 0, firstPass := False\<rparr>))"
  by (auto simp: RunCheckers_lock1_def Let_def)

lemma lock1_Unlocked:
  assumes "RunCheckers_lock1 h l = Unlocked h' l'"
  shows "h' = h \<and> run h \<and> count_var l' = length (Checks h) + 1 \<and>
         nextIndex l' < length (Checks h) \<and>
         firstPass l' = (firstPass l \<and> nextIndex l < length (Checks h))"
  using assms unfolding lock1_cases by (auto split: if_splits)

lemma lock1_Locked:
  assumes "RunCheckers_lock1 h l = Locked h' l'"
  shows "h' = h \<and> run h \<and> Checks h = [] \<and> count_var l' = 1 \<and> \<not> firstPass l'"
  using assms unfolding lock1_cases by (auto split: if_splits)

lemma lock1_Returned:
  "(RunCheckers_lock1 h l = Returned h') = (\<not> run h \<and> h' = h)"
  unfolding lock1_cases by auto

lemma lock2_frame:
  "RunCheckers_lock2 h l = (h', l') \<Longrightarrow>
     run h' = run h \<and> Checks h' = Checks h \<and> count_var l' = count_var l \<and>
     firstPass l' = firstPass l \<and> nextIndex l' = nextIndex l + 1"
  by (auto simp: RunCheckers_lock2_def)

lemma write_frame:
  "run (RunCheckers_write err t h l) = run h \<and>
   length (Checks (RunCheckers_write err t h l)) = length (Checks h) \<and>
   Health.Healthy (RunCheckers_write err t h l) = Health.Healthy h"
  by (simp add: RunCheckers_write_def)

lemma run_system_snoc:
  "(run_system s (es @ [e]) = Some s') =
   (\<exists>s1. run_system s es = Some s1 \<and> next_system s1 e = Some s')"
  by (induction es arbitrary: s) (auto split: option.splits)

lemmas system_defs = new_system_def AddCheck_def MakeHealth_def RunCheckers_start_def
  RunCheckers_lock1_def RunCheckers_call_def RunCheckers_write_def RunCheckers_lock2_def
  runChecker_record_def StopCheckers_def

subsection \<open>The length of the sleep\<close>

lemma int64_id: "- (2 ^ 63) \<le> x \<Longrightarrow> x < 2 ^ 63 \<Longrightarrow> int64 x = x"
  unfolding int64_def by (rule signed_take_bit_int_eq_self)

lemma ten_ms: "int64 (int64 10 * Millisecond) = 10 * Millisecond"
proof -
  have a: "int64 10 = 10" by (rule int64_id) simp_all
  have b: "int64 (10 * Millisecond) = 10 * Millisecond"
    unfolding Millisecond_def by (rule int64_id) simp_all
  show ?thesis unfolding a by (rule b)
qed

lemma sleepDuration_firstPass: "firstPass l \<Longrightarrow> sleepDuration f l = 10 * Millisecond"
  by (simp add: sleepDuration_def ten_ms Let_def)

lemma sleepDuration_later:
  "\<not> firstPass l \<Longrightarrow>
   sleepDuration f l = int64 (int64 (int64 f * Second) sdiv int64 (int (count_var l)))"
  by (simp add: sleepDuration_def Let_def)

lemma sdiv_nonneg: "0 \<le> a \<Longrightarrow> 0 < b \<Longrightarrow> (a::int) sdiv b = a div b"
  by (cases "a = 0") (simp_all add: signed_divide_int_def)

lemma sleepDuration_exact:
  assumes "\<not> firstPass l" and "0 \<le> f" and "f * Second < 2 ^ 63"
    and "0 < count_var l" and "int (count_var l) < 2 ^ 63"
  shows "sleepDuration f l = (f * Second) div int (count_var l)"
proof -
  have s1: "(1::int) \<le> Second" by (simp add: Second_def)
  have "f * 1 \<le> f * Second" using assms(2) s1 by (rule mult_left_mono [rotated])
  then have f: "f < 2 ^ 63" using assms(3) by simp
  have c0: "0 < int (count_var l)" using assms(4) by simp
  have f1: "int64 f = f" using assms(2) f by (intro int64_id) linarith+
  have p0: "0 \<le> f * Second" using assms(2) by (simp add: Second_def)
  have f2: "int64 (f * Second) = f * Second" using p0 assms(3) by (intro int64_id) linarith+
  have f3: "int64 (int (count_var l)) = int (count_var l)"
    using c0 assms(5) by (intro int64_id) linarith+
  have q0: "0 \<le> (f * Second) div int (count_var l)" using p0 c0 by (simp add: pos_imp_zdiv_nonneg_iff)
  have "(f * Second) div int (count_var l) \<le> (f * Second) div 1"
    using p0 c0 by (intro zdiv_mono2) linarith+
  then have "(f * Second) div int (count_var l) \<le> f * Second" by simp
  then have q1: "(f * Second) div int (count_var l) < 2 ^ 63" using assms(3) by linarith
  have f4: "int64 ((f * Second) div int (count_var l)) = (f * Second) div int (count_var l)"
    using q0 q1 by (intro int64_id) linarith+
  show ?thesis
    unfolding sleepDuration_later [OF assms(1)] f1 f2 f3 sdiv_nonneg [OF p0 c0] by (rule f4)
qed

lemma current_sleep_cases:
  "current_sleep s =
     (if firstPass (vars s) then 10 * Millisecond
      else int64 (int64 (int64 (frequency s) * Second) sdiv int64 (int (count_var (vars s)))))"
  by (simp add: current_sleep_def sleepDuration_firstPass sleepDuration_later)

lemma locals_start:
  assumes "next_system s (CallRunCheckers f) = Some s'"
  shows "at s' = Sleeping \<and> count_var (vars s') = length (Checks (registry s')) + 1 \<and>
         firstPass (vars s') \<and> frequency s' = f"
  using assms by (auto simp: RunCheckers_start_def split: if_splits)

lemma locals_wake:
  assumes a: "next_system s Wake = Some s' \<and> at s' \<noteq> Exited"
  shows "count_var (vars s') = length (Checks (registry s)) + 1 \<and>
         Checks (registry s') = Checks (registry s) \<and>
         firstPass (vars s') = (firstPass (vars s) \<and> nextIndex (vars s) < length (Checks (registry s)))
         \<and> frequency s' = frequency s"
proof (cases "RunCheckers_lock1 (registry s) (vars s)")
  case (Returned h)
  with a show ?thesis by (auto split: if_splits)
next
  case (Unlocked h l)
  from lock1_Unlocked [OF Unlocked] a Unlocked show ?thesis
    by (auto split: if_splits sum.splits)
next
  case (Locked h l)
  from lock1_Locked [OF Locked] a Locked show ?thesis
    by (auto split: if_splits prod.splits dest!: lock2_frame)
qed

lemma locals_other:
  assumes a: "next_system s e = Some s' \<and> e \<noteq> Wake \<and> (\<forall>g. e \<noteq> CallRunCheckers g)"
  shows "count_var (vars s') = count_var (vars s) \<and> firstPass (vars s') = firstPass (vars s) \<and>
         frequency s' = frequency s"
proof (cases e)
  case (Checked err t)
  with a show ?thesis by (auto split: if_splits prod.splits dest!: lock2_frame)
next
  case CheckedLost
  with a show ?thesis by (auto split: if_splits prod.splits dest!: lock2_frame)
next
  case (CallRemoveCheck n)
  with a show ?thesis by (auto split: if_splits sum.splits)
qed (use a in \<open>auto split: if_splits\<close>)

lemma call_while_checking:
  assumes "next_system s e = Some s'" and "is_call e" and "at s = Checking"
  shows "at s' = Checking \<and> vars s' = vars s \<and> frequency s' = frequency s \<and>
         (e = CallStopCheckers \<longrightarrow> Checks (registry s') = Checks (registry s))"
proof (cases e)
  case (CallRemoveCheck n)
  with assms RemoveCheck_frame [of "registry s" n] show ?thesis
    by (auto split: if_splits sum.splits)
qed (use assms in \<open>auto simp: StopCheckers_def split: if_splits\<close>)

lemma calls_while_checking:
  "run_system s cs = Some s' \<Longrightarrow> list_all is_call cs \<Longrightarrow> at s = Checking \<Longrightarrow>
   at s' = Checking \<and> vars s' = vars s \<and> frequency s' = frequency s \<and>
   (set cs \<subseteq> {CallStopCheckers} \<longrightarrow> Checks (registry s') = Checks (registry s))"
proof (induction cs arbitrary: s)
  case Nil
  then show ?case by simp
next
  case (Cons e cs)
  from Cons.prems(1) obtain s1 where n: "next_system s e = Some s1"
    and r: "run_system s1 cs = Some s'" by (auto split: option.splits)
  from Cons.prems(2) have e: "is_call e" and cs: "list_all is_call cs" by simp_all
  note one = call_while_checking [OF n e Cons.prems(3)]
  from one have a1: "at s1 = Checking" by simp
  note rest = Cons.IH [OF r cs a1]
  from one rest show ?case by auto
qed

lemma check_ends:
  assumes "next_system s e = Some s'" and "\<not> is_call e" and "at s = Checking"
  shows "at s' = Sleeping \<and> vars s' = (vars s)\<lparr>nextIndex := nextIndex (vars s) + 1\<rparr> \<and>
         frequency s' = frequency s \<and>
         length (Checks (registry s')) = length (Checks (registry s)) \<and>
         run (registry s') = run (registry s)"
proof (cases e)
  case (Checked err t)
  with assms write_frame [of err t "registry s" "vars s"] show ?thesis
    by (auto simp: RunCheckers_lock2_def)
next
  case CheckedLost
  with assms show ?thesis by (auto simp: RunCheckers_lock2_def split: if_splits)
qed (use assms in auto)

lemma sleep_after_check:
  assumes w: "next_system s Wake = Some sa" and a: "at sa = Checking"
    and r: "run_system sa cs = Some sb" and c: "list_all is_call cs"
    and n: "next_system sb e = Some s'" and e: "\<not> is_call e"
  shows "at s' = Sleeping \<and>
         count_var (vars s') = length (Checks (registry s)) + 1 \<and>
         (set cs \<subseteq> {CallStopCheckers} \<longrightarrow>
            count_var (vars s') = length (Checks (registry s')) + 1)"
proof -
  from a have "at sa \<noteq> Exited" by simp
  with w locals_wake [of s sa]
  have k: "count_var (vars sa) = length (Checks (registry s)) + 1"
    and ks: "Checks (registry sa) = Checks (registry s)" by blast+
  note m = calls_while_checking [OF r c a]
  from m have b: "at sb = Checking" and vb: "vars sb = vars sa" by blast+
  note f = check_ends [OF n e b]
  from f vb k have c1: "count_var (vars s') = length (Checks (registry s)) + 1" by simp
  have c2: "set cs \<subseteq> {CallStopCheckers} \<longrightarrow>
      count_var (vars s') = length (Checks (registry s')) + 1"
  proof
    assume "set cs \<subseteq> {CallStopCheckers}"
    with m have "Checks (registry sb) = Checks (registry sa)" by blast
    with f ks have "length (Checks (registry s')) = length (Checks (registry s))" by simp
    with c1 show "count_var (vars s') = length (Checks (registry s')) + 1" by simp
  qed
  from f c1 c2 show ?thesis by blast
qed

lemma second_sleep_reached:
  "run_system new_system
     [CallAddCheck ''db'' False (Some 1), CallRunCheckers 10, Wake, Checked None 1] =
   Some second_sleep"
  by (simp add: second_sleep_def system_defs)

lemma third_sleep_reached:
  "run_system second_sleep [Wake, Checked None 2] = Some third_sleep"
  by (simp add: second_sleep_def third_sleep_def system_defs)

text \<open>
  C4, as the claim states it: the sleep is the frequency divided by the greater of 1 and the
  number of checks, except for the very first sleep. With the one check \<open>db\<close> and frequency
  10 the second sleep is still 10 milliseconds, \<^verbatim>\<open>count\<close> is 2 and not 1, and the third sleep
  is 5 seconds, where the claim gives 10 seconds.
\<close>

theorem sleep_of_claim_counterexample:
  "run_system new_system
     [CallAddCheck ''db'' False (Some 1), CallRunCheckers 10, Wake, Checked None 1] =
     Some second_sleep
   \<and> current_sleep second_sleep = 10 * Millisecond
   \<and> run_system second_sleep [Wake, Checked None 2] = Some third_sleep
   \<and> length (Checks (registry third_sleep)) = 1
   \<and> count_var (vars third_sleep) = 2
   \<and> current_sleep third_sleep = 5 * Second
   \<and> frequency third_sleep * Second div int (max 1 (length (Checks (registry third_sleep)))) =
       10 * Second
   \<and> current_sleep third_sleep \<noteq>
       frequency third_sleep * Second div int (max 1 (length (Checks (registry third_sleep))))"
proof -
  have a: "current_sleep second_sleep = 10 * Millisecond"
    by (simp add: current_sleep_def second_sleep_def sleepDuration_firstPass)
  have b: "length (Checks (registry third_sleep)) = 1" "count_var (vars third_sleep) = 2"
    by (simp_all add: third_sleep_def)
  have c: "current_sleep third_sleep = 5 * Second"
    by (simp add: current_sleep_def third_sleep_def sleepDuration_exact Second_def)
  have d: "frequency third_sleep * Second div
      int (max 1 (length (Checks (registry third_sleep)))) = 10 * Second"
    by (simp add: third_sleep_def)
  have e: "current_sleep third_sleep \<noteq>
      frequency third_sleep * Second div int (max 1 (length (Checks (registry third_sleep))))"
    unfolding c d by (simp add: Second_def)
  from second_sleep_reached a third_sleep_reached b c d e show ?thesis by (intro conjI)
qed

text \<open>
  C4, amended: \<^verbatim>\<open>count\<close> is set to the number of registered checks plus one when
  \<^verbatim>\<open>RunCheckers\<close> starts and whenever the loop takes the lock after a sleep, and no other
  step changes it. So when the loop goes to sleep after a check, \<^verbatim>\<open>count\<close> is the number of
  checks that were registered when that pass took the lock, plus one; it is the number
  registered at the moment of the sleep plus one when nothing but \<^verbatim>\<open>StopCheckers\<close> was called
  while the check ran. The sleep is 10 milliseconds while \<^verbatim>\<open>firstPass\<close> holds and otherwise
  the frequency in seconds divided by \<^verbatim>\<open>count\<close>, in \<^verbatim>\<open>int64\<close> nanoseconds; without overflow
  that is the integer quotient. \<^verbatim>\<open>firstPass\<close> holds from the call of \<^verbatim>\<open>RunCheckers\<close> until
  the first pass that finds the cursor at or beyond the end of the slice, and no other step
  changes it. The last four parts say the same of the parts of the code taken alone:
  \<^verbatim>\<open>count\<close> is set at line 127 and at line 140 and nowhere else, \<^verbatim>\<open>firstPass\<close> is cleared in
  the pass that finds the cursor at or beyond the end, and lines 132 to 135 compute the
  sleep from these two.
\<close>

theorem sleep_is_frequency_over_count:
  "(next_system s (CallRunCheckers f) = Some s' \<longrightarrow>
      at s' = Sleeping \<and> count_var (vars s') = length (Checks (registry s')) + 1 \<and>
      firstPass (vars s') \<and> frequency s' = f)
   \<and> (next_system s Wake = Some s' \<and> at s' \<noteq> Exited \<longrightarrow>
        count_var (vars s') = length (Checks (registry s)) + 1 \<and>
        Checks (registry s') = Checks (registry s) \<and>
        firstPass (vars s') = (firstPass (vars s) \<and> nextIndex (vars s) < length (Checks (registry s)))
        \<and> frequency s' = frequency s)
   \<and> (next_system s e = Some s' \<and> e \<noteq> Wake \<and> (\<forall>g. e \<noteq> CallRunCheckers g) \<longrightarrow>
        count_var (vars s') = count_var (vars s) \<and> firstPass (vars s') = firstPass (vars s) \<and>
        frequency s' = frequency s)
   \<and> (next_system s Wake = Some sa \<and> at sa = Checking \<and> run_system sa cs = Some sb \<and>
        list_all is_call cs \<and> next_system sb e = Some s' \<and> \<not> is_call e \<longrightarrow>
        at s' = Sleeping \<and>
        count_var (vars s') = length (Checks (registry s)) + 1 \<and>
        (set cs \<subseteq> {CallStopCheckers} \<longrightarrow>
           count_var (vars s') = length (Checks (registry s')) + 1))
   \<and> current_sleep s =
        (if firstPass (vars s) then 10 * Millisecond
         else int64 (int64 (int64 (frequency s) * Second) sdiv int64 (int (count_var (vars s)))))
   \<and> (\<not> firstPass (vars s) \<and> 0 \<le> frequency s \<and> frequency s * Second < 2 ^ 63 \<and>
        0 < count_var (vars s) \<and> int (count_var (vars s)) < 2 ^ 63 \<longrightarrow>
        current_sleep s = frequency s * Second div int (count_var (vars s)))
   \<and> (RunCheckers_start h = (ha, la) \<longrightarrow>
        count_var la = length (Checks h) + 1 \<and> firstPass la)
   \<and> (RunCheckers_lock1 h l = Unlocked ha la \<or> RunCheckers_lock1 h l = Locked ha la \<longrightarrow>
        count_var la = length (Checks h) + 1 \<and>
        firstPass la = (firstPass l \<and> nextIndex l < length (Checks h)))
   \<and> (RunCheckers_lock2 h l = (ha, la) \<longrightarrow>
        count_var la = count_var l \<and> firstPass la = firstPass l)
   \<and> sleepDuration f l =
        (if firstPass l then 10 * Millisecond
         else int64 (int64 (int64 f * Second) sdiv int64 (int (count_var l))))"
proof -
  have S1: "next_system s (CallRunCheckers f) = Some s' \<longrightarrow>
      at s' = Sleeping \<and> count_var (vars s') = length (Checks (registry s')) + 1 \<and>
      firstPass (vars s') \<and> frequency s' = f"
    using locals_start [of s f s'] by blast
  have S2: "next_system s Wake = Some s' \<and> at s' \<noteq> Exited \<longrightarrow>
        count_var (vars s') = length (Checks (registry s)) + 1 \<and>
        Checks (registry s') = Checks (registry s) \<and>
        firstPass (vars s') = (firstPass (vars s) \<and> nextIndex (vars s) < length (Checks (registry s)))
        \<and> frequency s' = frequency s"
    using locals_wake [of s s'] by blast
  have S3: "next_system s e = Some s' \<and> e \<noteq> Wake \<and> (\<forall>g. e \<noteq> CallRunCheckers g) \<longrightarrow>
        count_var (vars s') = count_var (vars s) \<and> firstPass (vars s') = firstPass (vars s) \<and>
        frequency s' = frequency s"
    using locals_other [of s e s'] by blast
  have S4: "next_system s Wake = Some sa \<and> at sa = Checking \<and> run_system sa cs = Some sb \<and>
        list_all is_call cs \<and> next_system sb e = Some s' \<and> \<not> is_call e \<longrightarrow>
        at s' = Sleeping \<and>
        count_var (vars s') = length (Checks (registry s)) + 1 \<and>
        (set cs \<subseteq> {CallStopCheckers} \<longrightarrow>
           count_var (vars s') = length (Checks (registry s')) + 1)"
    using sleep_after_check [of s sa cs sb e s'] by blast
  have S5: "current_sleep s =
        (if firstPass (vars s) then 10 * Millisecond
         else int64 (int64 (int64 (frequency s) * Second) sdiv int64 (int (count_var (vars s)))))"
    by (rule current_sleep_cases)
  have S6: "\<not> firstPass (vars s) \<and> 0 \<le> frequency s \<and> frequency s * Second < 2 ^ 63 \<and>
        0 < count_var (vars s) \<and> int (count_var (vars s)) < 2 ^ 63 \<longrightarrow>
        current_sleep s = frequency s * Second div int (count_var (vars s))"
    unfolding current_sleep_def using sleepDuration_exact [of "vars s" "frequency s"] by blast
  have B1: "RunCheckers_start h = (ha, la) \<longrightarrow>
        count_var la = length (Checks h) + 1 \<and> firstPass la"
    by (auto simp: RunCheckers_start_def)
  have B2: "RunCheckers_lock1 h l = Unlocked ha la \<or> RunCheckers_lock1 h l = Locked ha la \<longrightarrow>
        count_var la = length (Checks h) + 1 \<and>
        firstPass la = (firstPass l \<and> nextIndex l < length (Checks h))"
    using lock1_Unlocked [of h l ha la] lock1_Locked [of h l ha la] by auto
  have B3: "RunCheckers_lock2 h l = (ha, la) \<longrightarrow>
        count_var la = count_var l \<and> firstPass la = firstPass l"
    using lock2_frame [of h l ha la] by blast
  have B4: "sleepDuration f l =
        (if firstPass l then 10 * Millisecond
         else int64 (int64 (int64 f * Second) sdiv int64 (int (count_var l))))"
    by (simp add: sleepDuration_firstPass sleepDuration_later)
  from S1 S2 S3 S4 S5 S6 B1 B2 B3 B4 show ?thesis by (intro conjI)
qed

theorem sleep_is_frequency_over_count_witness:
  "(\<exists>s'. next_system (new_system :: nat system) (CallRunCheckers 10) = Some s' \<and>
      at s' = Sleeping \<and> count_var (vars s') = length (Checks (registry s')) + 1 \<and>
      firstPass (vars s') \<and> frequency s' = 10)
   \<and> (\<exists>s'. next_system second_sleep Wake = Some s' \<and> at s' \<noteq> Exited \<and>
         count_var (vars s') = 2 \<and> \<not> firstPass (vars s'))
   \<and> (\<exists>s'. next_system second_sleep CallStopCheckers = Some s' \<and>
         count_var (vars s') = 2 \<and> firstPass (vars s'))
   \<and> (\<exists>sa sb. next_system second_sleep Wake = Some sa \<and> at sa = Checking \<and>
         run_system sa [CallAddCheck ''new'' False (Some 2)] = Some sb \<and>
         next_system sb (Checked None 2) = Some asleep_after_add)
   \<and> list_all is_call [CallAddCheck ''new'' False (Some (2::nat))]
   \<and> \<not> is_call (Checked None 2 :: nat event)
   \<and> at asleep_after_add = Sleeping
   \<and> count_var (vars asleep_after_add) = 2
   \<and> length (Checks (registry asleep_after_add)) = 2
   \<and> current_sleep asleep_after_add = 10 * Second div 2
   \<and> (\<exists>sa. next_system second_sleep Wake = Some sa \<and> at sa = Checking \<and>
         run_system sa [] = Some sa \<and> next_system sa (Checked None 2) = Some third_sleep)
   \<and> count_var (vars third_sleep) = length (Checks (registry third_sleep)) + 1
   \<and> current_sleep third_sleep = 10 * Second div 2
   \<and> count_var (snd (RunCheckers_start two_checks)) = 3
   \<and> (\<exists>ha la. RunCheckers_lock1 (registry second_sleep) (vars second_sleep) = Unlocked ha la \<and>
         count_var la = 2 \<and> \<not> firstPass la)
   \<and> (\<exists>ha la. RunCheckers_lock2 (registry second_sleep) (vars second_sleep) = (ha, la) \<and>
         count_var la = 2 \<and> firstPass la)"
proof -
  note T = sleep_is_frequency_over_count
  \<comment> \<open>the start\<close>
  obtain s1 where n1: "next_system (new_system :: nat system) (CallRunCheckers 10) = Some s1"
    by (simp add: new_system_def RunCheckers_start_def)
  have c1: "at s1 = Sleeping \<and> count_var (vars s1) = length (Checks (registry s1)) + 1 \<and>
      firstPass (vars s1) \<and> frequency s1 = 10"
    by (rule T [where s = "new_system :: nat system" and f = 10 and s' = s1,
          THEN conjunct1, THEN mp, OF n1])
  have e1: "\<exists>s'. next_system (new_system :: nat system) (CallRunCheckers 10) = Some s' \<and>
      at s' = Sleeping \<and> count_var (vars s') = length (Checks (registry s')) + 1 \<and>
      firstPass (vars s') \<and> frequency s' = 10"
    by (rule exI [of _ s1]) (rule conjI [OF n1 c1])
  \<comment> \<open>a pass that takes the lock\<close>
  obtain s2 where n2: "next_system second_sleep Wake = Some s2" and a2: "at s2 \<noteq> Exited"
    by (simp add: second_sleep_def system_defs)
  have "count_var (vars s2) = length (Checks (registry second_sleep)) + 1 \<and>
      Checks (registry s2) = Checks (registry second_sleep) \<and>
      firstPass (vars s2) = (firstPass (vars second_sleep) \<and>
        nextIndex (vars second_sleep) < length (Checks (registry second_sleep))) \<and>
      frequency s2 = frequency second_sleep"
    by (rule T [where s = second_sleep and s' = s2, THEN conjunct2, THEN conjunct1, THEN mp, OF conjI [OF n2 a2]])
  then have c2: "count_var (vars s2) = 2 \<and> \<not> firstPass (vars s2)"
    by (simp add: second_sleep_def)
  have e2: "\<exists>s'. next_system second_sleep Wake = Some s' \<and> at s' \<noteq> Exited \<and>
      count_var (vars s') = 2 \<and> \<not> firstPass (vars s')"
    by (rule exI [of _ s2]) (intro conjI n2 a2 c2 [THEN conjunct1] c2 [THEN conjunct2])
  \<comment> \<open>a call\<close>
  obtain s3 where n3: "next_system second_sleep CallStopCheckers = Some s3"
    by (simp add: second_sleep_def)
  have k3: "(CallStopCheckers :: nat event) \<noteq> Wake \<and>
      (\<forall>g. (CallStopCheckers :: nat event) \<noteq> CallRunCheckers g)" by simp
  have "count_var (vars s3) = count_var (vars second_sleep) \<and>
      firstPass (vars s3) = firstPass (vars second_sleep) \<and>
      frequency s3 = frequency second_sleep"
    by (rule T [where s = second_sleep and s' = s3 and e = CallStopCheckers, THEN conjunct2, THEN conjunct2, THEN conjunct1, THEN mp,
          OF conjI [OF n3 k3]])
  then have c3: "count_var (vars s3) = 2 \<and> firstPass (vars s3)"
    by (simp add: second_sleep_def)
  have e3: "\<exists>s'. next_system second_sleep CallStopCheckers = Some s' \<and>
      count_var (vars s') = 2 \<and> firstPass (vars s')"
    by (rule exI [of _ s3]) (rule conjI [OF n3 c3])
  \<comment> \<open>a check during which a new check is added\<close>
  have tr: "\<exists>sa sb. next_system second_sleep Wake = Some sa \<and> at sa = Checking \<and>
      run_system sa [CallAddCheck ''new'' False (Some 2)] = Some sb \<and>
      next_system sb (Checked None 2) = Some asleep_after_add"
    by (simp add: second_sleep_def asleep_after_add_def system_defs)
  then obtain sa sb where w: "next_system second_sleep Wake = Some sa" and a: "at sa = Checking"
    and r: "run_system sa [CallAddCheck ''new'' False (Some 2)] = Some sb"
    and n: "next_system sb (Checked None 2) = Some asleep_after_add" by blast
  have cl: "list_all is_call [CallAddCheck ''new'' False (Some (2::nat))]" by simp
  have nc: "\<not> is_call (Checked None 2 :: nat event)" by simp
  have t4: "at asleep_after_add = Sleeping \<and>
      count_var (vars asleep_after_add) = length (Checks (registry second_sleep)) + 1 \<and>
      (set [CallAddCheck ''new'' False (Some (2::nat))] \<subseteq> {CallStopCheckers} \<longrightarrow>
         count_var (vars asleep_after_add) = length (Checks (registry asleep_after_add)) + 1)"
    by (rule T [where s = second_sleep and sa = sa and sb = sb and s' = asleep_after_add
          and cs = "[CallAddCheck ''new'' False (Some 2)]" and e = "Checked None 2",
          THEN conjunct2, THEN conjunct2, THEN conjunct2, THEN conjunct1, THEN mp, OF conjI [OF w conjI [OF a conjI [OF r conjI [OF cl conjI [OF n nc]]]]]])
  from t4 have g1: "at asleep_after_add = Sleeping" by (rule conjunct1)
  from t4 have "count_var (vars asleep_after_add) = length (Checks (registry second_sleep)) + 1"
    by (rule conjunct2 [THEN conjunct1])
  then have g2: "count_var (vars asleep_after_add) = 2" by (simp add: second_sleep_def)
  have g3: "length (Checks (registry asleep_after_add)) = 2" by (simp add: asleep_after_add_def)
  have h6: "\<not> firstPass (vars asleep_after_add) \<and> 0 \<le> frequency asleep_after_add \<and>
      frequency asleep_after_add * Second < 2 ^ 63 \<and> 0 < count_var (vars asleep_after_add) \<and>
      int (count_var (vars asleep_after_add)) < 2 ^ 63"
    by (simp add: asleep_after_add_def Second_def)
  have "current_sleep asleep_after_add =
      frequency asleep_after_add * Second div int (count_var (vars asleep_after_add))"
    by (rule T [where s = asleep_after_add, THEN conjunct2, THEN conjunct2, THEN conjunct2, THEN conjunct2, THEN conjunct2, THEN conjunct1, THEN mp, OF h6])
  then have g4: "current_sleep asleep_after_add = 10 * Second div 2"
    by (simp add: asleep_after_add_def)
  \<comment> \<open>a check during which nothing is called\<close>
  have tr0: "\<exists>sa. next_system second_sleep Wake = Some sa \<and> at sa = Checking \<and>
      run_system sa [] = Some sa \<and> next_system sa (Checked None 2) = Some third_sleep"
    by (simp add: second_sleep_def third_sleep_def system_defs)
  then obtain sc where w0: "next_system second_sleep Wake = Some sc" and a0: "at sc = Checking"
    and r0: "run_system sc [] = Some sc"
    and n0: "next_system sc (Checked None 2) = Some third_sleep" by blast
  have cl0: "list_all is_call ([] :: nat event list)" by simp
  have st0: "set ([] :: nat event list) \<subseteq> {CallStopCheckers}" by simp
  have g5: "count_var (vars third_sleep) = length (Checks (registry third_sleep)) + 1"
    by (rule T [where s = second_sleep and sa = sc and sb = sc and s' = third_sleep
          and cs = "[]" and e = "Checked None 2",
          THEN conjunct2, THEN conjunct2, THEN conjunct2, THEN conjunct1, THEN mp, OF conjI [OF w0 conjI [OF a0 conjI [OF r0 conjI [OF cl0 conjI [OF n0 nc]]]]],
          THEN conjunct2, THEN conjunct2, THEN mp, OF st0])
  have h7: "\<not> firstPass (vars third_sleep) \<and> 0 \<le> frequency third_sleep \<and>
      frequency third_sleep * Second < 2 ^ 63 \<and> 0 < count_var (vars third_sleep) \<and>
      int (count_var (vars third_sleep)) < 2 ^ 63"
    by (simp add: third_sleep_def Second_def)
  have "current_sleep third_sleep =
      frequency third_sleep * Second div int (count_var (vars third_sleep))"
    by (rule T [where s = third_sleep, THEN conjunct2, THEN conjunct2, THEN conjunct2, THEN conjunct2, THEN conjunct2, THEN conjunct1, THEN mp, OF h7])
  then have g6: "current_sleep third_sleep = 10 * Second div 2"
    by (simp add: third_sleep_def)
  \<comment> \<open>the parts of the code\<close>
  have st: "RunCheckers_start two_checks =
      (fst (RunCheckers_start two_checks), snd (RunCheckers_start two_checks))" by simp
  have "count_var (snd (RunCheckers_start two_checks)) = length (Checks two_checks) + 1"
    by (rule T [where h = two_checks and ha = "fst (RunCheckers_start two_checks)"
          and la = "snd (RunCheckers_start two_checks)", THEN conjunct2, THEN conjunct2, THEN conjunct2, THEN conjunct2, THEN conjunct2, THEN conjunct2, THEN conjunct1, THEN mp, OF st, THEN conjunct1])
  then have e4: "count_var (snd (RunCheckers_start two_checks)) = 3" by (simp add: two_checks_eq)
  obtain ha la where u: "RunCheckers_lock1 (registry second_sleep) (vars second_sleep) = Unlocked ha la"
    by (simp add: second_sleep_def lock1_cases)
  have "count_var la = length (Checks (registry second_sleep)) + 1 \<and>
        firstPass la = (firstPass (vars second_sleep) \<and>
          nextIndex (vars second_sleep) < length (Checks (registry second_sleep)))"
    by (rule T [where h = "registry second_sleep" and l = "vars second_sleep" and ha = ha
          and la = la, THEN conjunct2, THEN conjunct2, THEN conjunct2, THEN conjunct2, THEN conjunct2, THEN conjunct2, THEN conjunct2, THEN conjunct1, THEN mp, OF disjI1 [OF u]])
  then have "count_var la = 2 \<and> \<not> firstPass la" by (simp add: second_sleep_def)
  then have e5: "\<exists>ha la. RunCheckers_lock1 (registry second_sleep) (vars second_sleep) =
      Unlocked ha la \<and> count_var la = 2 \<and> \<not> firstPass la"
    by (intro exI [of _ ha] exI [of _ la] conjI u) simp_all
  obtain hb lb where v: "RunCheckers_lock2 (registry second_sleep) (vars second_sleep) = (hb, lb)"
    by (cases "RunCheckers_lock2 (registry second_sleep) (vars second_sleep)")
  have "count_var lb = count_var (vars second_sleep) \<and> firstPass lb = firstPass (vars second_sleep)"
    by (rule T [where h = "registry second_sleep" and l = "vars second_sleep" and ha = hb
          and la = lb, THEN conjunct2, THEN conjunct2, THEN conjunct2, THEN conjunct2, THEN conjunct2, THEN conjunct2, THEN conjunct2, THEN conjunct2, THEN conjunct1, THEN mp, OF v])
  then have "count_var lb = 2 \<and> firstPass lb" by (simp add: second_sleep_def)
  then have e6: "\<exists>ha la. RunCheckers_lock2 (registry second_sleep) (vars second_sleep) = (ha, la) \<and>
         count_var la = 2 \<and> firstPass la"
    by (intro exI [of _ hb] exI [of _ lb] conjI v) simp_all
  from e1 e2 e3 tr cl nc g1 g2 g3 g4 tr0 g5 g6 e4 e5 e6 show ?thesis by (intro conjI)
qed

subsection \<open>When the loop returns\<close>

lemma running_next:
  assumes p: "at s \<noteq> Exited \<and> (at s = Sleeping \<or> at s = Checking \<longrightarrow> run (registry s))"
    and n: "next_system s e = Some s'" and e: "e \<noteq> CallStopCheckers"
  shows "at s' \<noteq> Exited \<and> (at s' = Sleeping \<or> at s' = Checking \<longrightarrow> run (registry s'))"
proof (cases e)
  case (CallRunCheckers f)
  with n p show ?thesis by (auto simp: RunCheckers_start_def split: if_splits)
next
  case Wake
  show ?thesis
  proof (cases "RunCheckers_lock1 (registry s) (vars s)")
    case (Returned h)
    then have "\<not> run (registry s)" by (simp add: lock1_Returned)
    moreover from n Wake have "at s = Sleeping" by (auto split: if_splits)
    ultimately show ?thesis using p by simp
  next
    case (Unlocked h l)
    from lock1_Unlocked [OF Unlocked] n Wake Unlocked show ?thesis
      by (auto split: if_splits sum.splits)
  next
    case (Locked h l)
    from lock1_Locked [OF Locked] n Wake Locked show ?thesis
      by (auto split: if_splits prod.splits dest!: lock2_frame)
  qed
next
  case (Checked err t)
  with n p write_frame [of err t "registry s" "vars s"] show ?thesis
    by (auto split: if_splits prod.splits dest!: lock2_frame)
next
  case CheckedLost
  with n p show ?thesis by (auto split: if_splits prod.splits dest!: lock2_frame)
next
  case (CallAddCheck nm ob k)
  with n p show ?thesis by (auto simp: AddCheck_frame split: if_splits)
next
  case (CallRemoveCheck nm)
  with n p RemoveCheck_frame [of "registry s" nm] show ?thesis
    by (auto split: if_splits sum.splits)
next
  case CallStopCheckers
  with e show ?thesis by simp
qed

lemma running_run:
  "at s \<noteq> Exited \<and> (at s = Sleeping \<or> at s = Checking \<longrightarrow> run (registry s)) \<Longrightarrow>
   run_system s es = Some s' \<Longrightarrow> CallStopCheckers \<notin> set es \<Longrightarrow>
   at s' \<noteq> Exited \<and> (at s' = Sleeping \<or> at s' = Checking \<longrightarrow> run (registry s'))"
proof (induction es arbitrary: s)
  case Nil
  then show ?case by simp
next
  case (Cons e es)
  from Cons.prems(2) obtain s1 where n: "next_system s e = Some s1"
    and r: "run_system s1 es = Some s'" by (auto split: option.splits)
  from Cons.prems(3) have e: "e \<noteq> CallStopCheckers" and es: "CallStopCheckers \<notin> set es" by auto
  from running_next [OF Cons.prems(1) n e] r es show ?case by (rule Cons.IH)
qed

lemma exit_needs_stop:
  assumes "run_system new_system es = Some s" and "at s = Exited"
  shows "CallStopCheckers \<in> set es"
proof (rule ccontr)
  assume "CallStopCheckers \<notin> set es"
  moreover have "at (new_system :: 'a system) \<noteq> Exited \<and>
    (at (new_system :: 'a system) = Sleeping \<or> at (new_system :: 'a system) = Checking
       \<longrightarrow> run (registry (new_system :: 'a system)))"
    by (simp add: new_system_def)
  ultimately have "at s \<noteq> Exited" using assms(1) running_run by blast
  with assms(2) show False by simp
qed

lemma exit_step:
  assumes "next_system s e = Some s'" and "at s' = Exited" and "at s \<noteq> Exited"
  shows "e = Wake \<and> at s = Sleeping \<and> \<not> run (registry s) \<and> registry s' = registry s"
proof (cases e)
  case Wake
  show ?thesis
  proof (cases "RunCheckers_lock1 (registry s) (vars s)")
    case (Returned h)
    with assms Wake have s': "s' = s\<lparr>registry := h, at := Exited\<rparr>" and a: "at s = Sleeping"
      by (auto split: if_splits)
    from Returned have "\<not> run (registry s) \<and> h = registry s" by (simp add: lock1_Returned)
    with s' a Wake show ?thesis by simp
  next
    case (Unlocked h l)
    with assms Wake show ?thesis by (auto split: if_splits sum.splits)
  next
    case (Locked h l)
    with assms Wake show ?thesis by (auto split: if_splits prod.splits)
  qed
next
  case (CallRemoveCheck nm)
  with assms show ?thesis by (auto split: if_splits sum.splits)
next
  case (Checked err t)
  with assms show ?thesis by (auto split: if_splits prod.splits)
next
  case CheckedLost
  with assms show ?thesis by (auto split: if_splits prod.splits)
next
  case (CallRunCheckers f)
  with assms show ?thesis by (auto split: if_splits prod.splits)
qed (use assms in \<open>auto split: if_splits\<close>)

lemma checked_step:
  assumes "at s = Checking"
  shows "\<exists>s'. next_system s (Checked err t) = Some s' \<and> at s' = Sleeping \<and>
           run (registry s') = run (registry s)"
  using assms write_frame [of err t "registry s" "vars s"]
  by (auto simp: RunCheckers_lock2_def)

lemma wake_stopped:
  assumes "at s = Sleeping" and "\<not> run (registry s)"
  shows "next_system s Wake = Some (s\<lparr>at := Exited\<rparr>)"
  using assms by (simp add: lock1_cases)

lemma wake_running:
  assumes "at s = Sleeping" and "run (registry s)"
  shows "\<exists>s'. next_system s Wake = Some s' \<and> at s' \<noteq> Exited"
  using assms by (auto simp: lock1_cases RunCheckers_lock2_def split: sum.splits)

lemma stop_step:
  assumes "at s = Sleeping \<or> at s = Checking"
  shows "\<exists>s'. next_system s CallStopCheckers = Some s' \<and> \<not> run (registry s') \<and> at s' = at s"
  using assms by (auto simp: StopCheckers_def)

lemma stopped_stays:
  assumes "at s = Sleeping \<or> at s = Checking" and "\<not> run (registry s)"
    and "next_system s e = Some s'" and "is_call e"
  shows "\<not> run (registry s') \<and> at s' = at s"
proof (cases e)
  case (CallRemoveCheck nm)
  with assms RemoveCheck_frame [of "registry s" nm] show ?thesis
    by (auto split: if_splits sum.splits)
qed (use assms in \<open>auto simp: AddCheck_frame StopCheckers_def split: if_splits\<close>)

lemma lost_step:
  assumes "next_system s CheckedLost = Some s'"
  shows "at s' = Sleeping \<and> run (registry s') = run (registry s)"
  using assms by (auto simp: RunCheckers_lock2_def split: if_splits)

lemma pass_Return:
  "(RunCheckers_pass check now h l = Return h') = (\<not> run h \<and> h' = h)"
  by (auto simp: RunCheckers_pass_def lock1_cases RunCheckers_lock2_def split: sum.splits)

text \<open>
  C9, as the claim states it: once \<^verbatim>\<open>StopCheckers\<close> has cleared the flag, the loop returns at
  its next lock acquisition after the check that is running completes. Here \<^verbatim>\<open>StopCheckers\<close>
  is called while the first check runs. The check returns, the loop takes the lock at line
  152 and goes on to line 164: it is asleep again, with the flag cleared, and has not
  returned. It returns at the acquisition after that sleep.
\<close>

theorem stop_during_check_counterexample:
  "run_system new_system
     [CallAddCheck ''db'' False (Some 1), CallRunCheckers 10, Wake, CallStopCheckers,
      Checked None 1] = Some stopped_asleep
   \<and> \<not> run (registry stopped_asleep)
   \<and> at stopped_asleep = Sleeping
   \<and> at stopped_asleep \<noteq> Exited
   \<and> next_system stopped_asleep Wake = Some (stopped_asleep\<lparr>at := Exited\<rparr>)"
  by (simp add: stopped_asleep_def system_defs)

text \<open>
  C9, amended: the loop returns only in the step that ends a sleep, and only when it finds
  the flag cleared; in a run from a new registry that takes a call of \<^verbatim>\<open>StopCheckers\<close>. A
  check that returns, with a failure or without, never makes the loop return: the loop goes
  to sleep. A loop that wakes with the flag set does not return; one that wakes with the
  flag cleared returns and changes nothing. \<^verbatim>\<open>StopCheckers\<close> clears the flag during a sleep
  or a check and leaves the loop where it is, and no call sets the flag again while the
  loop sleeps or checks. So the loop returns at the first acquisition after a sleep that
  follows the call of \<^verbatim>\<open>StopCheckers\<close>. The part before the last is about a whole pass on
  its own: it returns exactly when it finds the flag cleared, whatever the check reports.
  The last part is the check whose result is written to an array that the registry no
  longer has: the loop goes to sleep all the same.
\<close>

theorem loop_returns_only_when_stopped:
  "(next_system s e = Some s' \<and> at s' = Exited \<and> at s \<noteq> Exited \<longrightarrow>
      e = Wake \<and> at s = Sleeping \<and> \<not> run (registry s) \<and> registry s' = registry s)
   \<and> (run_system new_system es = Some s \<and> at s = Exited \<longrightarrow> CallStopCheckers \<in> set es)
   \<and> (at s = Checking \<longrightarrow>
        (\<exists>s'. next_system s (Checked err t) = Some s' \<and> at s' = Sleeping \<and>
           run (registry s') = run (registry s)))
   \<and> (at s = Sleeping \<and> run (registry s) \<longrightarrow>
        (\<exists>s'. next_system s Wake = Some s' \<and> at s' \<noteq> Exited))
   \<and> (at s = Sleeping \<and> \<not> run (registry s) \<longrightarrow>
        next_system s Wake = Some (s\<lparr>at := Exited\<rparr>))
   \<and> (at s = Sleeping \<or> at s = Checking \<longrightarrow>
        (\<exists>s'. next_system s CallStopCheckers = Some s' \<and> \<not> run (registry s') \<and> at s' = at s))
   \<and> ((at s = Sleeping \<or> at s = Checking) \<and> \<not> run (registry s) \<and>
        next_system s e = Some s' \<and> is_call e \<longrightarrow> \<not> run (registry s') \<and> at s' = at s)
   \<and> (RunCheckers_pass check now h l = Return h') = (\<not> run h \<and> h' = h)
   \<and> (next_system s CheckedLost = Some s' \<longrightarrow>
        at s' = Sleeping \<and> run (registry s') = run (registry s))"
  using exit_step [of s e s'] exit_needs_stop [of es s] checked_step [of s err t]
    wake_running [of s] wake_stopped [of s] stop_step [of s] stopped_stays [of s e s']
    pass_Return [of check now h l h'] lost_step [of s s']
  by (intro conjI) blast+

theorem loop_returns_only_when_stopped_witness:
  "next_system stopped_asleep Wake = Some (stopped_asleep\<lparr>at := Exited\<rparr>)
   \<and> at (stopped_asleep\<lparr>at := Exited\<rparr>) = Exited \<and> at stopped_asleep \<noteq> Exited
   \<and> \<not> run (registry stopped_asleep)
   \<and> run_system new_system
       [CallAddCheck ''db'' False (Some 1), CallRunCheckers 10, Wake, CallStopCheckers,
        Checked None 1, Wake] = Some (stopped_asleep\<lparr>at := Exited\<rparr>)
   \<and> CallStopCheckers \<in> set [CallAddCheck ''db'' False (Some (1::nat)), CallRunCheckers 10, Wake,
        CallStopCheckers, Checked None 1, Wake]
   \<and> at checking_db = Checking
   \<and> (\<exists>s'. next_system checking_db (Checked (Some (Error ''down'')) 5) = Some s' \<and>
         at s' = Sleeping \<and> run (registry s'))
   \<and> at second_sleep = Sleeping \<and> run (registry second_sleep)
   \<and> (\<exists>s'. next_system second_sleep Wake = Some s' \<and> at s' \<noteq> Exited)
   \<and> (\<exists>s'. next_system checking_db CallStopCheckers = Some s' \<and> \<not> run (registry s') \<and>
         at s' = Checking)
   \<and> is_call (CallAddCheck ''x'' False (None :: nat option))
   \<and> next_system stopped_asleep (CallAddCheck ''x'' False None) =
       Some (stopped_asleep\<lparr>registry := AddCheck (registry stopped_asleep) ''x'' False None,
              moved := True\<rparr>)
   \<and> \<not> run (AddCheck (registry stopped_asleep) ''x'' False None)
   \<and> (\<exists>sb s'. run_system checking_db [CallAddCheck ''new'' False None] = Some sb \<and>
         next_system sb CheckedLost = Some s' \<and> at s' = Sleeping)"
proof -
  have a: "at stopped_asleep = Sleeping" "\<not> run (registry stopped_asleep)"
    by (simp_all add: stopped_asleep_def)
  have a': "at stopped_asleep \<noteq> Exited" using a(1) by simp
  have r: "run_system new_system
       [CallAddCheck ''db'' False (Some 1), CallRunCheckers 10, Wake, CallStopCheckers,
        Checked None 1, Wake] = Some (stopped_asleep\<lparr>at := Exited\<rparr>)"
    by (simp add: stopped_asleep_def system_defs)
  have c: "at checking_db = Checking" "run (registry checking_db)"
    by (simp_all add: checking_db_def RunCheckers_start_def)
  have s2: "at second_sleep = Sleeping" "run (registry second_sleep)"
    by (simp_all add: second_sleep_def)
  have n: "next_system stopped_asleep (CallAddCheck ''x'' False None) =
       Some (stopped_asleep\<lparr>registry := AddCheck (registry stopped_asleep) ''x'' False None,
              moved := True\<rparr>)"
    by (simp add: stopped_asleep_def)
  have i: "is_call (CallAddCheck ''x'' False (None :: nat option))" by simp
  have x: "at (stopped_asleep\<lparr>at := Exited\<rparr>) = Exited" by simp
  have w: "next_system stopped_asleep Wake = Some (stopped_asleep\<lparr>at := Exited\<rparr>)"
    by (rule loop_returns_only_when_stopped [where s = stopped_asleep,
          THEN conjunct2, THEN conjunct2, THEN conjunct2, THEN conjunct2, THEN conjunct1,
          THEN mp, OF conjI [OF a(1) a(2)]])
  have g2: "CallStopCheckers \<in> set [CallAddCheck ''db'' False (Some (1::nat)), CallRunCheckers 10,
      Wake, CallStopCheckers, Checked None 1, Wake]"
    by (rule loop_returns_only_when_stopped [where s = "stopped_asleep\<lparr>at := Exited\<rparr>",
          THEN conjunct2, THEN conjunct1, THEN mp, OF conjI [OF r x]])
  from loop_returns_only_when_stopped [where s = checking_db and err = "Some (Error ''down'')"
      and t = 5, THEN conjunct2, THEN conjunct2, THEN conjunct1, THEN mp, OF c(1)]
  obtain sa where ga: "next_system checking_db (Checked (Some (Error ''down'')) 5) = Some sa"
    "at sa = Sleeping" "run (registry sa) = run (registry checking_db)" by blast
  from ga(3) c(2) have "run (registry sa)" by simp
  with ga have g3: "\<exists>s'. next_system checking_db (Checked (Some (Error ''down'')) 5) = Some s' \<and>
         at s' = Sleeping \<and> run (registry s')" by blast
  have g4: "\<exists>s'. next_system second_sleep Wake = Some s' \<and> at s' \<noteq> Exited"
    by (rule loop_returns_only_when_stopped [where s = second_sleep,
          THEN conjunct2, THEN conjunct2, THEN conjunct2, THEN conjunct1,
          THEN mp, OF conjI [OF s2(1) s2(2)]])
  from loop_returns_only_when_stopped [where s = checking_db,
      THEN conjunct2, THEN conjunct2, THEN conjunct2, THEN conjunct2, THEN conjunct2,
      THEN conjunct1, THEN mp, OF disjI2 [OF c(1)]]
  obtain sb where gb: "next_system checking_db CallStopCheckers = Some sb"
    "\<not> run (registry sb)" "at sb = at checking_db" by blast
  from gb(3) c(1) have "at sb = Checking" by simp
  with gb have g5: "\<exists>s'. next_system checking_db CallStopCheckers = Some s' \<and>
      \<not> run (registry s') \<and> at s' = Checking" by blast
  from loop_returns_only_when_stopped [where s = stopped_asleep
      and e = "CallAddCheck ''x'' False None"
      and s' = "stopped_asleep\<lparr>registry := AddCheck (registry stopped_asleep) ''x'' False None,
              moved := True\<rparr>",
      THEN conjunct2, THEN conjunct2, THEN conjunct2, THEN conjunct2, THEN conjunct2,
      THEN conjunct2, THEN conjunct1, THEN mp,
      OF conjI [OF disjI1 [OF a(1)] conjI [OF a(2) conjI [OF n i]]]]
  have g6: "\<not> run (AddCheck (registry stopped_asleep) ''x'' False None)" by simp
  have "\<exists>sb s'. run_system checking_db [CallAddCheck ''new'' False None] = Some sb \<and>
      next_system sb CheckedLost = Some s'"
    by (simp add: checking_db_def two_checks_eq system_defs)
  then obtain sc sd where rc: "run_system checking_db [CallAddCheck ''new'' False None] = Some sc"
    and nl: "next_system sc CheckedLost = Some sd" by blast
  have "at sd = Sleeping"
    by (rule loop_returns_only_when_stopped [where s = sc and s' = sd,
          THEN conjunct2, THEN conjunct2, THEN conjunct2, THEN conjunct2, THEN conjunct2,
          THEN conjunct2, THEN conjunct2, THEN conjunct2, THEN mp, OF nl, THEN conjunct1])
  with rc nl have g7: "\<exists>sb s'. run_system checking_db [CallAddCheck ''new'' False None] = Some sb \<and>
      next_system sb CheckedLost = Some s' \<and> at s' = Sleeping" by blast
  from w x a' a(2) r g2 c(1) g3 s2 g4 g5 i n g6 g7 show ?thesis by (intro conjI)
qed

subsection \<open>A new registry\<close>

lemma call_keeps_Healthy:
  assumes "next_system s e = Some s'" and "is_call e"
  shows "Health.Healthy (registry s') = Health.Healthy (registry s)"
proof (cases e)
  case (CallRemoveCheck nm)
  with assms RemoveCheck_frame [of "registry s" nm] show ?thesis
    by (auto split: if_splits sum.splits)
qed (use assms in \<open>auto simp: AddCheck_frame StopCheckers_def RunCheckers_start_def split: if_splits\<close>)

lemma calls_keep_Healthy:
  "run_system s es = Some s' \<Longrightarrow> list_all is_call es \<Longrightarrow>
   Health.Healthy (registry s') = Health.Healthy (registry s)"
proof (induction es arbitrary: s)
  case Nil
  then show ?case by simp
next
  case (Cons e es)
  from Cons.prems(1) obtain s1 where n: "next_system s e = Some s1"
    and r: "run_system s1 es = Some s'" by (auto split: option.splits)
  from Cons.prems(2) have e: "is_call e" and es: "list_all is_call es" by simp_all
  from Cons.IH [OF r es] call_keeps_Healthy [OF n e] show ?case by simp
qed

lemma handler_unhealthy:
  assumes "\<not> Health.Healthy h"
  shows "status (fst (HTTPHandler marshal wrote h NewResponseWriter)) =
     Some (case marshal h of Inl e \<Rightarrow> 500 | Inr d \<Rightarrow> 418)"
  using assms by (auto simp: HTTPHandler_def Let_def split: sum.splits prod.splits)

text \<open>
  C10: a registry from \<^verbatim>\<open>MakeHealth\<close> has \<^verbatim>\<open>Healthy\<close> and \<^verbatim>\<open>run\<close> false. \<^verbatim>\<open>AddCheck\<close> and
  \<^verbatim>\<open>RemoveCheck\<close> change neither, and no call changes \<^verbatim>\<open>Healthy\<close>: only the steps of the
  loop do. So after any sequence of calls on a new registry, the start of the loop
  included, \<^verbatim>\<open>Healthy\<close> is false and the status handler answers 418 (500 when marshalling
  fails).
\<close>

theorem fresh_registry_is_unhealthy:
  fixes h :: "'c Health" and s s' :: "'c system"
  shows "\<not> Health.Healthy (MakeHealth :: 'c Health) \<and> \<not> run (MakeHealth :: 'c Health)
   \<and> Health.Healthy (AddCheck h service observeOnly chk) = Health.Healthy h
   \<and> run (AddCheck h service observeOnly chk) = run h
   \<and> (\<exists>h'. RemoveCheck h service = Inr h' \<and> Health.Healthy h' = Health.Healthy h \<and>
         run h' = run h)
   \<and> (next_system s e = Some s' \<and> is_call e \<longrightarrow>
        Health.Healthy (registry s') = Health.Healthy (registry s))
   \<and> (run_system new_system es = Some s' \<and> list_all is_call es \<longrightarrow>
        \<not> Health.Healthy (registry s') \<and>
        status (fst (HTTPHandler marshal wrote (registry s') NewResponseWriter)) =
          Some (case marshal (registry s') of Inl e \<Rightarrow> 500 | Inr d \<Rightarrow> 418))"
proof -
  have m1: "\<not> Health.Healthy (MakeHealth :: 'c Health)" by (simp add: MakeHealth_def)
  have m2: "\<not> run (MakeHealth :: 'c Health)" by (simp add: MakeHealth_def)
  have a1: "Health.Healthy (AddCheck h service observeOnly chk) = Health.Healthy h"
    and a2: "run (AddCheck h service observeOnly chk) = run h"
    using AddCheck_frame [of h service observeOnly chk] by simp_all
  have r: "\<exists>h'. RemoveCheck h service = Inr h' \<and> Health.Healthy h' = Health.Healthy h \<and>
         run h' = run h"
    using RemoveCheck_frame [of h service] by blast
  have c: "next_system s e = Some s' \<and> is_call e \<longrightarrow>
        Health.Healthy (registry s') = Health.Healthy (registry s)"
    using call_keeps_Healthy [of s e s'] by blast
  have f: "run_system new_system es = Some s' \<and> list_all is_call es \<longrightarrow>
        \<not> Health.Healthy (registry s') \<and>
        status (fst (HTTPHandler marshal wrote (registry s') NewResponseWriter)) =
          Some (case marshal (registry s') of Inl e \<Rightarrow> 500 | Inr d \<Rightarrow> 418)"
  proof
    assume a: "run_system new_system es = Some s' \<and> list_all is_call es"
    then have r: "run_system new_system es = Some s'" and l: "list_all is_call es" by blast+
    have "Health.Healthy (registry s') = Health.Healthy (registry (new_system :: 'c system))"
      using r l by (rule calls_keep_Healthy)
    then have u: "\<not> Health.Healthy (registry s')" by (simp add: new_system_def MakeHealth_def)
    from u handler_unhealthy [OF u, of marshal wrote]
    show "\<not> Health.Healthy (registry s') \<and>
        status (fst (HTTPHandler marshal wrote (registry s') NewResponseWriter)) =
          Some (case marshal (registry s') of Inl e \<Rightarrow> 500 | Inr d \<Rightarrow> 418)" by (rule conjI)
  qed
  from m1 m2 a1 a2 r c f show ?thesis by (intro conjI)
qed

theorem fresh_registry_is_unhealthy_witness:
  "is_call (CallAddCheck ''db'' False (Some (1::nat)))
   \<and> (\<exists>s'. next_system new_system (CallAddCheck ''db'' False (Some (1::nat))) = Some s' \<and>
         \<not> Health.Healthy (registry s'))
   \<and> list_all is_call [CallAddCheck ''db'' False (Some (1::nat)), CallRemoveCheck ''x'',
        CallRunCheckers 10, CallStopCheckers]
   \<and> (\<exists>s'. run_system new_system [CallAddCheck ''db'' False (Some (1::nat)), CallRemoveCheck ''x'',
        CallRunCheckers 10, CallStopCheckers] = Some s' \<and>
        length (Checks (registry s')) = 1 \<and>
        \<not> Health.Healthy (registry s') \<and>
        status (fst (HTTPHandler (\<lambda>h. Inr ''{}'') (\<lambda>d. (int (length d), None)) (registry s')
          NewResponseWriter)) = Some 418)"
proof -
  let ?es = "[CallAddCheck ''db'' False (Some (1::nat)), CallRemoveCheck ''x'',
        CallRunCheckers 10, CallStopCheckers]"
  obtain s1 where n: "next_system new_system (CallAddCheck ''db'' False (Some (1::nat))) = Some s1"
    by (simp add: new_system_def)
  have h1: "\<not> Health.Healthy (registry (new_system :: nat system))"
    by (simp add: new_system_def MakeHealth_def)
  have c: "is_call (CallAddCheck ''db'' False (Some (1::nat)))" by simp
  note step = fresh_registry_is_unhealthy [where s = new_system
      and e = "CallAddCheck ''db'' False (Some 1)" and s' = s1,
      THEN conjunct2, THEN conjunct2, THEN conjunct2, THEN conjunct2, THEN conjunct2,
      THEN conjunct1, THEN mp, OF conjI [OF n c]]
  have k1: "\<not> Health.Healthy (registry s1)" unfolding step by (rule h1)
  obtain s2 where r: "run_system new_system ?es = Some s2"
    and len: "length (Checks (registry s2)) = 1"
    by (simp add: system_defs RemoveCheck_def)
  have l: "list_all is_call ?es" by simp
  note trace = fresh_registry_is_unhealthy [where es = ?es and s' = s2
      and marshal = "\<lambda>h. Inr ''{}''" and wrote = "\<lambda>d. (int (length d), None)",
      THEN conjunct2, THEN conjunct2, THEN conjunct2, THEN conjunct2, THEN conjunct2,
      THEN conjunct2, THEN mp, OF conjI [OF r l]]
  have k2: "\<not> Health.Healthy (registry s2)" using trace by (rule conjunct1)
  have "status (fst (HTTPHandler (\<lambda>h. Inr ''{}'') (\<lambda>d. (int (length d), None)) (registry s2)
          NewResponseWriter)) =
        Some (case (Inr ''{}'' :: error + string) of Inl e \<Rightarrow> 500 | Inr d \<Rightarrow> 418)"
    using trace by (rule conjunct2)
  then have k3: "status (fst (HTTPHandler (\<lambda>h. Inr ''{}'') (\<lambda>d. (int (length d), None))
       (registry s2) NewResponseWriter)) = Some 418"
    by (simp only: sum.case)
  have e1: "\<exists>s'. next_system new_system (CallAddCheck ''db'' False (Some (1::nat))) = Some s' \<and>
         \<not> Health.Healthy (registry s')"
    by (rule exI [of _ s1]) (rule conjI [OF n k1])
  have e2: "\<exists>s'. run_system new_system ?es = Some s' \<and>
        length (Checks (registry s')) = 1 \<and>
        \<not> Health.Healthy (registry s') \<and>
        status (fst (HTTPHandler (\<lambda>h. Inr ''{}'') (\<lambda>d. (int (length d), None)) (registry s')
          NewResponseWriter)) = Some 418"
    by (rule exI [of _ s2]) (intro conjI r len k2 k3)
  from c e1 l e2 show ?thesis by (intro conjI)
qed

end
